theory Spec2Isabelle
  imports Main
begin

section \<open>Data model (src/utils/types.ts)\<close>

datatype MessageStatus = PENDING | PROCESSING | COMPLETED | FAILED | DELAYED | DEAD_LETTER

text \<open>
  The interface \<open>Message<T>\<close>. The field \<open>id\<close> is called \<open>msg_id\<close> here, since
  \<open>id\<close> is the identity function of HOL. Numbers are integers: timestamps are integer
  milliseconds, and priorities, delays and counters are modelled as integers too.
  An optional field that is absent (\<open>undefined\<close>) is \<open>None\<close>.
\<close>

record 'a Message =
  msg_id :: string
  data :: 'a
  status :: MessageStatus
  priority :: int
  createdAt :: int
  updatedAt :: int
  delayUntil :: "int option"
  processingStartedAt :: "int option"
  processingAttempts :: int
  failureReason :: "string option"

record QueueOptions =
  maxRetries :: int
  retryDelay :: int
  persistenceEnabled :: bool
  persistenceDriver :: string
  persistenceInterval :: int
  deadLetterEnabled :: bool
  autoCheckDelayed :: bool
  delayedCheckInterval :: int

definition DEFAULT_QUEUE_OPTIONS :: QueueOptions where
  "DEFAULT_QUEUE_OPTIONS =
     \<lparr> maxRetries = 3, retryDelay = 1000, persistenceEnabled = False,
       persistenceDriver = ''memory'', persistenceInterval = 5000,
       deadLetterEnabled = True, autoCheckDelayed = False, delayedCheckInterval = 100 \<rparr>"

section \<open>Helpers (utils/helpers.ts)\<close>

text \<open>
  \<open>generateUniqueId\<close> glues the base-36 timestamp and a random part with a dash; the two
  parts come from the clock and the random generator, and are parameters here.
\<close>

definition generateUniqueId :: "string \<Rightarrow> string \<Rightarrow> string" where
  "generateUniqueId timestampPart randomPart = timestampPart @ ''-'' @ randomPart"

definition sortByPriorityAndTime :: "'a Message \<Rightarrow> 'a Message \<Rightarrow> int" where
  "sortByPriorityAndTime a b =
     (if priority a \<noteq> priority b then priority b - priority a
      else createdAt a - createdAt b)"

text \<open>
  \<open>Array.prototype.sort(compareFn)\<close>: a stable sort; \<open>x\<close> stays before \<open>y\<close> unless
  \<open>compareFn(x, y) > 0\<close>.
\<close>

fun insert_sorted :: "('e \<Rightarrow> 'e \<Rightarrow> int) \<Rightarrow> 'e \<Rightarrow> 'e list \<Rightarrow> 'e list" where
  "insert_sorted c x [] = [x]"
| "insert_sorted c x (y # ys) =
     (if c x y \<le> 0 then x # y # ys else y # insert_sorted c x ys)"

definition array_sort :: "('e \<Rightarrow> 'e \<Rightarrow> int) \<Rightarrow> 'e list \<Rightarrow> 'e list" where
  "array_sort c xs = foldr (insert_sorted c) xs []"

text \<open>\<open>Array.prototype.findIndex\<close>, with \<open>None\<close> for \<open>-1\<close>.\<close>

fun findIndex :: "('e \<Rightarrow> bool) \<Rightarrow> 'e list \<Rightarrow> nat option" where
  "findIndex P [] = None"
| "findIndex P (x # xs) = (if P x then Some 0 else map_option Suc (findIndex P xs))"

text \<open>\<open>xs.splice(i, 1)\<close>: the list without its entry at index \<open>i\<close>.\<close>

definition splice1 :: "nat \<Rightarrow> 'e list \<Rightarrow> 'e list" where
  "splice1 i xs = take i xs @ drop (Suc i) xs"

text \<open>Truthiness of an optional number and of an optional string.\<close>

definition truthy_num :: "int option \<Rightarrow> bool" where
  "truthy_num v = (case v of None \<Rightarrow> False | Some n \<Rightarrow> n \<noteq> 0)"

definition truthy_str :: "string option \<Rightarrow> bool" where
  "truthy_str v = (case v of None \<Rightarrow> False | Some s \<Rightarrow> s \<noteq> [])"

section \<open>The queue (core/advanced-queue.ts)\<close>

text \<open>
  The three arrays hold references to message objects, and the methods mutate the objects
  in place. The objects live in \<open>store\<close>; a reference is an index into it, and a new
  object is appended. Every read of \<open>Date.now()\<close> is a parameter of the operation.
\<close>

type_synonym ref = nat

record 'a AdvancedQueue =
  store :: "'a Message list"
  messages :: "ref list"
  delayedMessages :: "ref list"
  deadLetterMessages :: "ref list"
  options :: QueueOptions
  processingMessages :: "string set"

text \<open>The constructor, after the given options are merged over the defaults.\<close>

definition new_queue :: "QueueOptions \<Rightarrow> 'a AdvancedQueue" where
  "new_queue opts =
     \<lparr> store = [], messages = [], delayedMessages = [], deadLetterMessages = [],
       options = opts, processingMessages = {} \<rparr>"

definition sort_refs :: "'a Message list \<Rightarrow> ref list \<Rightarrow> ref list" where
  "sort_refs h xs = array_sort (\<lambda>a b. sortByPriorityAndTime (h ! a) (h ! b)) xs"

text \<open>\<open>message.delayUntil && message.delayUntil <= now\<close>\<close>

definition elapsed :: "int \<Rightarrow> 'a Message \<Rightarrow> bool" where
  "elapsed now m = (case delayUntil m of None \<Rightarrow> False | Some d \<Rightarrow> d \<noteq> 0 \<and> d \<le> now)"

text \<open>The loop of \<open>checkDelayedMessages\<close> over the delayed array.\<close>

fun sweep_loop ::
  "int \<Rightarrow> ref list \<Rightarrow> 'a Message list \<Rightarrow> ref list \<Rightarrow> ref list
     \<Rightarrow> 'a Message list \<times> ref list \<times> ref list" where
  "sweep_loop now [] h readyMessages stillDelayed = (h, readyMessages, stillDelayed)"
| "sweep_loop now (a # as) h readyMessages stillDelayed =
     (if elapsed now (h ! a)
      then sweep_loop now as (h[a := (h ! a)\<lparr>status := PENDING, updatedAt := now\<rparr>])
             (readyMessages @ [a]) stillDelayed
      else sweep_loop now as h readyMessages (stillDelayed @ [a]))"

definition checkDelayedMessages :: "'a AdvancedQueue \<Rightarrow> int \<Rightarrow> 'a AdvancedQueue" where
  "checkDelayedMessages q now =
     (case sweep_loop now (delayedMessages q) (store q) [] [] of
        (h, readyMessages, stillDelayed) \<Rightarrow>
          if readyMessages \<noteq> []
          then q\<lparr>store := h, delayedMessages := stillDelayed,
                 messages := sort_refs h (messages q @ readyMessages)\<rparr>
          else q\<lparr>store := h, delayedMessages := stillDelayed\<rparr>)"

definition find_by_id :: "'a Message list \<Rightarrow> string \<Rightarrow> ref list \<Rightarrow> ref option" where
  "find_by_id h mid xs = find (\<lambda>a. msg_id (h ! a) = mid) xs"

definition findMessageById :: "'a AdvancedQueue \<Rightarrow> string \<Rightarrow> ref option" where
  "findMessageById q mid =
     (case find_by_id (store q) mid (messages q) of
        Some a \<Rightarrow> Some a
      | None \<Rightarrow>
          (case find_by_id (store q) mid (delayedMessages q) of
             Some a \<Rightarrow> Some a
           | None \<Rightarrow> find_by_id (store q) mid (deadLetterMessages q)))"

text \<open>
  The options object of \<open>enqueue\<close>. The argument \<open>gen\<close> of \<open>enqueue\<close> is the value that
  \<open>generateUniqueId()\<close> yields when it is called (only when no truthy id is given).
\<close>

record EnqueueOptions =
  opt_priority :: "int option"
  opt_delay :: "int option"
  opt_id :: "string option"

definition enqueue ::
  "'a AdvancedQueue \<Rightarrow> int \<Rightarrow> string \<Rightarrow> 'a \<Rightarrow> EnqueueOptions \<Rightarrow> ref \<times> 'a AdvancedQueue" where
  "enqueue q now gen d opts =
     (let mid = (case opt_id opts of None \<Rightarrow> gen | Some s \<Rightarrow> if s \<noteq> [] then s else gen);
          existingMessage = (if truthy_str (opt_id opts) then findMessageById q mid else None)
      in case existingMessage of
           Some a \<Rightarrow> (a, q)
         | None \<Rightarrow>
             (let message =
                    \<lparr> msg_id = mid, data = d,
                      status = (if truthy_num (opt_delay opts) then DELAYED else PENDING),
                      priority = (case opt_priority opts of None \<Rightarrow> 0 | Some p \<Rightarrow> p),
                      createdAt = now, updatedAt = now, delayUntil = None,
                      processingStartedAt = None, processingAttempts = 0,
                      failureReason = None \<rparr>;
                  a = length (store q)
              in case opt_delay opts of
                   Some dl \<Rightarrow>
                     if dl > 0
                     then (let h = store q @ [message\<lparr>delayUntil := Some (now + dl)\<rparr>]
                           in (a, q\<lparr>store := h,
                                    delayedMessages := sort_refs h (delayedMessages q @ [a])\<rparr>))
                     else (let h = store q @ [message]
                           in (a, q\<lparr>store := h,
                                    messages := sort_refs h (messages q @ [a])\<rparr>))
                 | None \<Rightarrow>
                     (let h = store q @ [message]
                      in (a, q\<lparr>store := h, messages := sort_refs h (messages q @ [a])\<rparr>))))"

definition peek :: "'a AdvancedQueue \<Rightarrow> int \<Rightarrow> ref option \<times> 'a AdvancedQueue" where
  "peek q now =
     (let q1 = checkDelayedMessages q now
      in (find (\<lambda>a. status (store q1 ! a) = PENDING) (messages q1), q1))"

definition dequeue ::
  "'a AdvancedQueue \<Rightarrow> int \<Rightarrow> int \<Rightarrow> int \<Rightarrow> ref option \<times> 'a AdvancedQueue" where
  "dequeue q now t1 t2 =
     (let q1 = checkDelayedMessages q now
      in case findIndex (\<lambda>a. status (store q1 ! a) = PENDING) (messages q1) of
           None \<Rightarrow> (None, q1)
         | Some index \<Rightarrow>
             (let a = messages q1 ! index;
                  m = (store q1 ! a)\<lparr>status := PROCESSING, processingStartedAt := Some t1,
                                     updatedAt := t2\<rparr>
              in (Some a, q1\<lparr>store := (store q1)[a := m],
                             processingMessages := insert (msg_id m) (processingMessages q1)\<rparr>)))"

definition complete :: "'a AdvancedQueue \<Rightarrow> string \<Rightarrow> int \<Rightarrow> bool \<times> 'a AdvancedQueue" where
  "complete q messageId now =
     (case findMessageById q messageId of
        None \<Rightarrow> (False, q)
      | Some a \<Rightarrow>
          (True, q\<lparr>store := (store q)[a := (store q ! a)\<lparr>status := COMPLETED, updatedAt := now\<rparr>],
                  processingMessages := processingMessages q - {messageId}\<rparr>))"

text \<open>
  \<open>fail\<close> reads the clock at \<open>t1\<close> (for \<open>updatedAt\<close>), at \<open>t2\<close> (for \<open>delayUntil\<close>) and at
  \<open>t3\<close> (inside the sweep that follows when \<open>autoCheckDelayed\<close> is set).
\<close>

definition fail ::
  "'a AdvancedQueue \<Rightarrow> string \<Rightarrow> string option \<Rightarrow> int \<Rightarrow> int \<Rightarrow> int
     \<Rightarrow> bool \<times> 'a AdvancedQueue" where
  "fail q messageId reason t1 t2 t3 =
     (case findMessageById q messageId of
        None \<Rightarrow> (False, q)
      | Some a \<Rightarrow>
          (let m = (store q ! a)\<lparr>status := FAILED, updatedAt := t1, failureReason := reason,
                                 processingAttempts := processingAttempts (store q ! a) + 1\<rparr>;
               q1 = q\<lparr>store := (store q)[a := m],
                      processingMessages := processingMessages q - {messageId}\<rparr>
           in if processingAttempts m < maxRetries (options q)
              then (let h = (store q1)[a := m\<lparr>status := DELAYED,
                                               delayUntil := Some (t2 + retryDelay (options q))\<rparr>];
                        q2 = q1\<lparr>store := h,
                                messages := filter (\<lambda>b. msg_id (h ! b) \<noteq> messageId) (messages q1),
                                delayedMessages := sort_refs h (delayedMessages q1 @ [a])\<rparr>
                    in if autoCheckDelayed (options q)
                       then (True, checkDelayedMessages q2 t3)
                       else (True, q2))
              else if deadLetterEnabled (options q)
              then (let h = (store q1)[a := m\<lparr>status := DEAD_LETTER\<rparr>]
                    in (True, q1\<lparr>store := h,
                                 messages := filter (\<lambda>b. msg_id (h ! b) \<noteq> messageId) (messages q1),
                                 delayedMessages :=
                                   filter (\<lambda>b. msg_id (h ! b) \<noteq> messageId) (delayedMessages q1),
                                 deadLetterMessages := deadLetterMessages q1 @ [a]\<rparr>))
              else (True, q1)))"

definition cancelDelayed :: "'a AdvancedQueue \<Rightarrow> string \<Rightarrow> bool \<times> 'a AdvancedQueue" where
  "cancelDelayed q messageId =
     (case findIndex (\<lambda>a. msg_id (store q ! a) = messageId) (delayedMessages q) of
        None \<Rightarrow> (False, q)
      | Some index \<Rightarrow> (True, q\<lparr>delayedMessages := splice1 index (delayedMessages q)\<rparr>))"

definition retryDeadLetter ::
  "'a AdvancedQueue \<Rightarrow> string \<Rightarrow> int \<Rightarrow> bool \<times> 'a AdvancedQueue" where
  "retryDeadLetter q messageId now =
     (case findIndex (\<lambda>a. msg_id (store q ! a) = messageId) (deadLetterMessages q) of
        None \<Rightarrow> (False, q)
      | Some index \<Rightarrow>
          (let a = deadLetterMessages q ! index;
               h = (store q)[a := (store q ! a)\<lparr>processingAttempts := 0,
                                                processingStartedAt := None, status := PENDING,
                                                updatedAt := now, failureReason := None,
                                                delayUntil := None\<rparr>]
           in (True, q\<lparr>store := h,
                       deadLetterMessages := splice1 index (deadLetterMessages q),
                       messages := sort_refs h (messages q @ [a])\<rparr>)))"

text \<open>\<open>size()\<close>, named \<open>size_q\<close> since \<open>size\<close> is a constant of HOL.\<close>

definition size_q :: "'a AdvancedQueue \<Rightarrow> nat" where
  "size_q q = length (filter (\<lambda>a. status (store q ! a) = PENDING) (messages q))"

definition totalSize :: "'a AdvancedQueue \<Rightarrow> nat" where
  "totalSize q =
     length (messages q) + length (delayedMessages q) + length (deadLetterMessages q)"

section \<open>The topic queue (core/advanced-topic-queue.ts)\<close>




section \<open>Reachable states and their invariants\<close>

text \<open>
  The states a queue object can be in: the constructor's, and what any public operation
  or a sweep of the delay timer makes of a reachable state, at any clock values. An
  identifier that is not supplied is one that \<open>generateUniqueId\<close> made.
\<close>

inductive reachable :: "'a AdvancedQueue \<Rightarrow> bool" where
  r_new: "reachable (new_queue opts)"
| r_enqueue:
    "reachable q \<Longrightarrow> reachable (snd (enqueue q now (generateUniqueId tp rp) d eo))"
| r_peek: "reachable q \<Longrightarrow> reachable (snd (peek q now))"
| r_dequeue: "reachable q \<Longrightarrow> reachable (snd (dequeue q now t1 t2))"
| r_complete: "reachable q \<Longrightarrow> reachable (snd (complete q mid now))"
| r_fail: "reachable q \<Longrightarrow> reachable (snd (fail q mid reason t1 t2 t3))"
| r_cancelDelayed: "reachable q \<Longrightarrow> reachable (snd (cancelDelayed q mid))"
| r_retryDeadLetter: "reachable q \<Longrightarrow> reachable (snd (retryDeadLetter q mid now))"
| r_sweep: "reachable q \<Longrightarrow> reachable (checkDelayedMessages q now)"

text \<open>
  The Ordering Policy in the words of the specification, not of the comparator:
  \<open>a\<close> is ranked before or level with \<open>b\<close> when \<open>a\<close> has the higher priority, or the
  same priority and a creation time that is not later (priority descending, then
  \<open>createdAt\<close> ascending).
\<close>

definition ordering_policy :: "'a Message \<Rightarrow> 'a Message \<Rightarrow> bool" where
  "ordering_policy a b =
     (priority b < priority a \<or> (priority a = priority b \<and> createdAt a \<le> createdAt b))"

text \<open>A list of references is in the order of the Ordering Policy, read through the store.\<close>

definition ordered_refs :: "'a Message list \<Rightarrow> ref list \<Rightarrow> bool" where
  "ordered_refs h xs = sorted_wrt (\<lambda>a b. ordering_policy (h ! a) (h ! b)) xs"

text \<open>Every reference held by a collection points into the store.\<close>

definition refs_valid :: "'a AdvancedQueue \<Rightarrow> bool" where
  "refs_valid q =
     (\<forall>a \<in> set (messages q @ delayedMessages q @ deadLetterMessages q). a < length (store q))"

text \<open>
  Invariants of the reachable states. The operations never write the id, the priority or
  the creation time of a message; every id in the store is non-empty (a supplied id is
  used only when it is truthy, and a generated one contains a dash); the ready collection
  is in the order of the comparator.
\<close>

definition same_keys :: "'a Message list \<Rightarrow> 'a Message list \<Rightarrow> bool" where
  "same_keys h h' =
     (length h' = length h \<and>
      (\<forall>b. msg_id (h' ! b) = msg_id (h ! b) \<and> priority (h' ! b) = priority (h ! b) \<and>
           createdAt (h' ! b) = createdAt (h ! b)))"

definition ids_nonempty :: "'a Message list \<Rightarrow> bool" where
  "ids_nonempty h = (\<forall>b < length h. msg_id (h ! b) \<noteq> [])"

definition queue_inv :: "'a AdvancedQueue \<Rightarrow> bool" where
  "queue_inv q =
     (refs_valid q \<and> ordered_refs (store q) (messages q) \<and> ids_nonempty (store q))"

text \<open>
  What a sweep leaves of the store: it only writes \<open>status\<close> and \<open>updatedAt\<close>.
\<close>

definition frame :: "'a Message list \<Rightarrow> 'a Message list \<Rightarrow> bool" where
  "frame h h' =
     (length h' = length h \<and>
      (\<forall>b. msg_id (h' ! b) = msg_id (h ! b) \<and> data (h' ! b) = data (h ! b) \<and>
           priority (h' ! b) = priority (h ! b) \<and> createdAt (h' ! b) = createdAt (h ! b) \<and>
           delayUntil (h' ! b) = delayUntil (h ! b) \<and>
           processingStartedAt (h' ! b) = processingStartedAt (h ! b) \<and>
           processingAttempts (h' ! b) = processingAttempts (h ! b) \<and>
           failureReason (h' ! b) = failureReason (h ! b)))"

section \<open>Properties named by the specification\<close>

text \<open>
  The message that \<open>dequeue\<close> is specified to return: a Pending message of the ready
  collection that is ranked before or level with every Pending message of the ready
  collection by the Ordering Policy.
\<close>

definition greatest_pending :: "'a AdvancedQueue \<Rightarrow> ref \<Rightarrow> bool" where
  "greatest_pending q a =
     (a \<in> set (messages q) \<and> status (store q ! a) = PENDING \<and>
      (\<forall>b \<in> set (messages q).
         status (store q ! b) = PENDING \<longrightarrow>
           ordering_policy (store q ! a) (store q ! b)))"

text \<open>
  The order that the specification states for the delayed collection: \<open>delayUntil\<close>
  ascending.
\<close>

definition ordered_by_delayUntil :: "'a Message list \<Rightarrow> ref list \<Rightarrow> bool" where
  "ordered_by_delayUntil h xs =
     sorted_wrt (\<lambda>a b. case (delayUntil (h ! a), delayUntil (h ! b)) of
                          (Some x, Some y) \<Rightarrow> x \<le> y
                        | _ \<Rightarrow> True) xs"

section \<open>Example states\<close>

definition with_id :: "string \<Rightarrow> EnqueueOptions" where
  "with_id s = \<lparr> opt_priority = None, opt_delay = None, opt_id = Some s \<rparr>"

definition with_delay :: "int \<Rightarrow> EnqueueOptions" where
  "with_delay dl = \<lparr> opt_priority = None, opt_delay = Some dl, opt_id = None \<rparr>"

definition with_priority :: "int \<Rightarrow> EnqueueOptions" where
  "with_priority p = \<lparr> opt_priority = Some p, opt_delay = None, opt_id = None \<rparr>"

text \<open>A new queue with the default options.\<close>

definition ex_new :: "string AdvancedQueue" where
  "ex_new = new_queue DEFAULT_QUEUE_OPTIONS"

text \<open>One message \<open>a\<close>, enqueued at time 0 with a delay of 1000.\<close>

definition ex_delayed :: "string AdvancedQueue" where
  "ex_delayed =
     snd (enqueue ex_new 0 (generateUniqueId ''t0'' ''r0'') ''task''
            \<lparr> opt_priority = None, opt_delay = Some 1000, opt_id = Some ''a'' \<rparr>)"

text \<open>One message \<open>a\<close>, enqueued at time 0 without a delay.\<close>

definition ex_ready :: "string AdvancedQueue" where
  "ex_ready = snd (enqueue ex_new 0 (generateUniqueId ''t0'' ''r0'') ''task'' (with_id ''a''))"

text \<open>
  With \<open>maxRetries = 1\<close>: the message \<open>a\<close> is enqueued, and failed once, which
  dead-letters it.
\<close>

definition ex_one_try :: "string AdvancedQueue" where
  "ex_one_try =
     snd (enqueue (new_queue (DEFAULT_QUEUE_OPTIONS\<lparr>maxRetries := 1\<rparr>)) 0
            (generateUniqueId ''t0'' ''r0'') ''task'' (with_id ''a''))"

definition ex_dead :: "string AdvancedQueue" where
  "ex_dead = snd (fail ex_one_try ''a'' (Some ''boom'') 5 5 5)"

text \<open>
  After the delayed message \<open>a\<close> (time 0, delay 1000), a second message is enqueued at
  time 1 with a delay of 10.
\<close>

definition ex_two_delayed :: "string AdvancedQueue" where
  "ex_two_delayed =
     snd (enqueue ex_delayed 1 (generateUniqueId ''t1'' ''r1'') ''task'' (with_delay 10))"

text \<open>The ready message \<open>a\<close> is failed once, and failed twice.\<close>

definition ex_failed_once :: "string AdvancedQueue" where
  "ex_failed_once = snd (fail ex_ready ''a'' (Some ''first'') 1 1 1)"

definition ex_failed_twice :: "string AdvancedQueue" where
  "ex_failed_twice = snd (fail ex_failed_once ''a'' (Some ''second'') 2 2 2)"

text \<open>A message enqueued into the new queue with a delay of \<open>-1\<close>.\<close>

definition ex_negative_delay :: "ref \<times> string AdvancedQueue" where
  "ex_negative_delay =
     enqueue ex_new 0 (generateUniqueId ''t0'' ''r0'') ''task'' (with_delay (- 1))"

text \<open>
  Three messages with the priorities 1, 10 and 5, enqueued in this order, and three calls
  of \<open>dequeue\<close>.
\<close>

definition ex_p1 :: "string AdvancedQueue" where
  "ex_p1 = snd (enqueue ex_new 0 (generateUniqueId ''t0'' ''r0'') ''low'' (with_priority 1))"

definition ex_p2 :: "string AdvancedQueue" where
  "ex_p2 = snd (enqueue ex_p1 0 (generateUniqueId ''t0'' ''r1'') ''high'' (with_priority 10))"

definition ex_p3 :: "string AdvancedQueue" where
  "ex_p3 = snd (enqueue ex_p2 0 (generateUniqueId ''t0'' ''r2'') ''medium'' (with_priority 5))"

definition ex_d1 :: "ref option \<times> string AdvancedQueue" where
  "ex_d1 = dequeue ex_p3 1 1 1"

definition ex_d2 :: "ref option \<times> string AdvancedQueue" where
  "ex_d2 = dequeue (snd ex_d1) 2 2 2"

definition ex_d3 :: "ref option \<times> string AdvancedQueue" where
  "ex_d3 = dequeue (snd ex_d2) 3 3 3"





text \<open>
  With \<open>retryDelay = 0\<close> and \<open>autoCheckDelayed\<close>: the ready message \<open>a\<close>, and its
  failure at time 5.
\<close>

definition ex_auto_ready :: "string AdvancedQueue" where
  "ex_auto_ready =
     snd (enqueue (new_queue (DEFAULT_QUEUE_OPTIONS\<lparr>retryDelay := 0, autoCheckDelayed := True\<rparr>))
            0 (generateUniqueId ''t0'' ''r0'') ''task'' (with_id ''a''))"

definition ex_auto_failed :: "bool \<times> string AdvancedQueue" where
  "ex_auto_failed = fail ex_auto_ready ''a'' (Some ''boom'') 5 5 5"

text \<open>
  With \<open>maxRetries = 1\<close> and dead-lettering disabled: the delayed message \<open>a\<close>, and
  its failure at time 5.
\<close>

definition ex_nodl_delayed :: "string AdvancedQueue" where
  "ex_nodl_delayed =
     snd (enqueue (new_queue (DEFAULT_QUEUE_OPTIONS\<lparr>maxRetries := 1, deadLetterEnabled := False\<rparr>))
            0 (generateUniqueId ''t0'' ''r0'') ''task''
            \<lparr> opt_priority = None, opt_delay = Some 1000, opt_id = Some ''a'' \<rparr>)"

definition ex_nodl_failed :: "bool \<times> string AdvancedQueue" where
  "ex_nodl_failed = fail ex_nodl_delayed ''a'' (Some ''boom'') 5 5 5"

text \<open>The ready message \<open>a\<close>, completed without having been dequeued.\<close>

definition ex_completed :: "string AdvancedQueue" where
  "ex_completed = snd (complete ex_ready ''a'' 1)"

text \<open>
  The dead-lettered message \<open>a\<close> is failed once more, and then retried from the
  dead-letter collection.
\<close>

definition ex_dead_twice :: "string AdvancedQueue" where
  "ex_dead_twice = snd (fail ex_dead ''a'' (Some ''again'') 6 6 6)"

definition ex_dead_retried :: "bool \<times> string AdvancedQueue" where
  "ex_dead_retried = retryDeadLetter ex_dead_twice ''a'' 7"

text \<open>The delayed message \<open>a\<close> is failed once, and then cancelled.\<close>

definition ex_delayed_failed :: "string AdvancedQueue" where
  "ex_delayed_failed = snd (fail ex_delayed ''a'' (Some ''first'') 1 1 1)"

definition ex_cancelled :: "bool \<times> string AdvancedQueue" where
  "ex_cancelled = cancelDelayed ex_delayed_failed ''a''"

text \<open>
  A message enqueued at time 0 with a delay of 100, and a second one enqueued at time 5
  without a delay, both with the default priority: the older one is promoted into a
  ready collection that already holds the newer one.
\<close>

definition ex_tie :: "string AdvancedQueue" where
  "ex_tie =
     snd (enqueue (snd (enqueue ex_new 0 (generateUniqueId ''t0'' ''r0'') ''old''
                          (with_delay 100)))
            5 (generateUniqueId ''t5'' ''r1'') ''new'' (with_id ''b''))"

text \<open>
  After the delayed message \<open>a\<close> (priority 0), a message of priority 7 is enqueued
  with a delay of 10.
\<close>

definition urgent_later :: EnqueueOptions where
  "urgent_later = \<lparr> opt_priority = Some 7, opt_delay = Some 10, opt_id = None \<rparr>"

definition ex_delayed_urgent :: "string AdvancedQueue" where
  "ex_delayed_urgent =
     snd (enqueue ex_delayed 1 (generateUniqueId ''t1'' ''r1'') ''urgent'' urgent_later)"

text \<open>
  After the ready message \<open>a\<close> (time 0), a second message is enqueued at time 5 with a
  delay of 1000; then \<open>a\<close> is failed at time 6 and joins the delayed collection.
\<close>

definition ex_mixed :: "string AdvancedQueue" where
  "ex_mixed =
     snd (enqueue ex_ready 5 (generateUniqueId ''t5'' ''r1'') ''later'' (with_delay 1000))"

definition ex_mixed_failed :: "string AdvancedQueue" where
  "ex_mixed_failed = snd (fail ex_mixed ''a'' (Some ''first'') 6 6 6)"

section \<open>Arrays: sort, findIndex, splice\<close>

lemma set_insert_sorted: "set (insert_sorted c x xs) = insert x (set xs)"
  by (induction xs) auto

lemma length_insert_sorted: "length (insert_sorted c x xs) = Suc (length xs)"
  by (induction xs) auto

lemma set_array_sort: "set (array_sort c xs) = set xs"
  by (induction xs) (auto simp: array_sort_def set_insert_sorted)

lemma length_array_sort: "length (array_sort c xs) = length xs"
  by (induction xs) (auto simp: array_sort_def length_insert_sorted)

lemma sorted_insert_sorted:
  assumes total: "\<And>x y. \<not> c x y \<le> 0 \<Longrightarrow> c y x \<le> 0"
    and trans: "\<And>x y z. c x y \<le> 0 \<Longrightarrow> c y z \<le> 0 \<Longrightarrow> c x z \<le> 0"
  shows "sorted_wrt (\<lambda>x y. c x y \<le> 0) xs
           \<Longrightarrow> sorted_wrt (\<lambda>x y. c x y \<le> 0) (insert_sorted c x xs)"
proof (induction xs)
  case Nil
  then show ?case by simp
next
  case (Cons y ys)
  show ?case
  proof (cases "c x y \<le> 0")
    case True
    with Cons.prems trans show ?thesis by auto
  next
    case False
    then have "c y x \<le> 0" by (rule total)
    with False Cons show ?thesis by (auto simp: set_insert_sorted)
  qed
qed

lemma sorted_array_sort:
  assumes total: "\<And>x y. \<not> c x y \<le> 0 \<Longrightarrow> c y x \<le> 0"
    and trans: "\<And>x y z. c x y \<le> 0 \<Longrightarrow> c y z \<le> 0 \<Longrightarrow> c x z \<le> 0"
  shows "sorted_wrt (\<lambda>x y. c x y \<le> 0) (array_sort c xs)"
proof (induction xs)
  case Nil
  then show ?case by (simp add: array_sort_def)
next
  case (Cons x xs)
  have "array_sort c (x # xs) = insert_sorted c x (array_sort c xs)"
    by (simp add: array_sort_def)
  with Cons sorted_insert_sorted[of c, OF total trans] show ?case by simp
qed

text \<open>
  The comparator implements the Ordering Policy: it is not positive exactly when its first
  argument is ranked before or level with its second.
\<close>

lemma cmp_le_iff: "sortByPriorityAndTime a b \<le> 0 \<longleftrightarrow> ordering_policy a b"
  by (auto simp: sortByPriorityAndTime_def ordering_policy_def)

lemma cmp_total:
  "\<not> sortByPriorityAndTime a b \<le> 0 \<Longrightarrow> sortByPriorityAndTime b a \<le> 0"
  by (auto simp: sortByPriorityAndTime_def split: if_splits)

lemma cmp_trans:
  "sortByPriorityAndTime a b \<le> 0 \<Longrightarrow> sortByPriorityAndTime b c \<le> 0
     \<Longrightarrow> sortByPriorityAndTime a c \<le> 0"
  by (auto simp: sortByPriorityAndTime_def split: if_splits)

lemma ordered_sort_refs: "ordered_refs h (sort_refs h xs)"
proof -
  let ?c = "\<lambda>a b. sortByPriorityAndTime (h ! a) (h ! b)"
  have "sorted_wrt (\<lambda>a b. ?c a b \<le> 0) (array_sort ?c xs)"
    by (rule sorted_array_sort) (blast intro: cmp_total cmp_trans)+
  then show ?thesis
    by (simp only: ordered_refs_def sort_refs_def cmp_le_iff)
qed

lemma set_sort_refs: "set (sort_refs h xs) = set xs"
  by (simp add: sort_refs_def set_array_sort)

lemma length_sort_refs: "length (sort_refs h xs) = length xs"
  by (simp add: sort_refs_def length_array_sort)

lemma findIndex_None: "findIndex P xs = None \<longleftrightarrow> (\<forall>x \<in> set xs. \<not> P x)"
  by (induction xs) auto

lemma findIndex_Some:
  "findIndex P xs = Some i \<Longrightarrow> i < length xs \<and> P (xs ! i) \<and> (\<forall>j < i. \<not> P (xs ! j))"
proof (induction xs arbitrary: i)
  case Nil
  then show ?case by simp
next
  case (Cons x xs)
  show ?case
  proof (cases "P x")
    case True
    with Cons.prems show ?thesis by simp
  next
    case False
    with Cons.prems obtain j where j: "findIndex P xs = Some j" "i = Suc j" by auto
    from Cons.IH[OF j(1)] False j(2) show ?thesis
      by (auto simp: less_Suc_eq_0_disj)
  qed
qed

lemma find_findIndex: "find P xs = map_option (\<lambda>i. xs ! i) (findIndex P xs)"
  by (induction xs) (auto simp: option.map_comp comp_def)

lemma splice1_findIndex: "findIndex P xs = Some i \<Longrightarrow> splice1 i xs = remove1 (xs ! i) xs"
proof (induction xs arbitrary: i)
  case Nil
  then show ?case by simp
next
  case (Cons x xs)
  show ?case
  proof (cases "P x")
    case True
    with Cons.prems show ?thesis by (simp add: splice1_def)
  next
    case False
    with Cons.prems obtain j where j: "findIndex P xs = Some j" "i = Suc j" by auto
    from findIndex_Some[OF j(1)] have "P (xs ! j)" by simp
    with False have "x \<noteq> xs ! j" by auto
    with Cons.IH[OF j(1)] j(2) show ?thesis by (simp add: splice1_def)
  qed
qed

lemma find_by_id_None:
  "find_by_id h mid xs = None \<longleftrightarrow> (\<forall>a \<in> set xs. msg_id (h ! a) \<noteq> mid)"
  by (auto simp: find_by_id_def find_None_iff)

lemma find_by_id_Some:
  "find_by_id h mid xs = Some a \<Longrightarrow> a \<in> set xs \<and> msg_id (h ! a) = mid"
  by (auto simp: find_by_id_def find_Some_iff)

lemmas ex_defs =
  ex_new_def ex_delayed_def ex_ready_def with_id_def with_delay_def
  with_priority_def new_queue_def DEFAULT_QUEUE_OPTIONS_def enqueue_def
  checkDelayedMessages_def findMessageById_def find_by_id_def truthy_str_def truthy_num_def
  sort_refs_def array_sort_def sortByPriorityAndTime_def elapsed_def generateUniqueId_def

section \<open>cancelDelayed\<close>

text \<open>
  What \<open>cancelDelayed(id)\<close> does in any state: it returns true exactly when some entry of
  the delayed collection carries the id; it then splices out one entry, the first with the
  id, and changes nothing else. When no entry of the delayed collection carries the id it
  returns false and the whole state is unchanged. The ready collection is the same after
  every call.
\<close>

lemma cancelDelayed_only_delayed:
  "(fst (cancelDelayed q mid) \<longleftrightarrow>
      (\<exists>a \<in> set (delayedMessages q). msg_id (store q ! a) = mid)) \<and>
   (\<forall>a. find_by_id (store q) mid (delayedMessages q) = Some a \<longrightarrow>
      cancelDelayed q mid = (True, q\<lparr>delayedMessages := remove1 a (delayedMessages q)\<rparr>)) \<and>
   (find_by_id (store q) mid (delayedMessages q) = None \<longrightarrow>
      cancelDelayed q mid = (False, q)) \<and>
   messages (snd (cancelDelayed q mid)) = messages q"
proof -
  let ?P = "\<lambda>a. msg_id (store q ! a) = mid"
  show ?thesis
  proof (cases "findIndex ?P (delayedMessages q)")
    case None
    then have f: "find_by_id (store q) mid (delayedMessages q) = None"
      by (simp add: find_by_id_def find_findIndex)
    from None have c: "cancelDelayed q mid = (False, q)"
      by (simp add: cancelDelayed_def)
    from None have "\<forall>a \<in> set (delayedMessages q). \<not> ?P a"
      by (simp add: findIndex_None)
    with f c show ?thesis by simp
  next
    case (Some i)
    then have f: "find_by_id (store q) mid (delayedMessages q) = Some (delayedMessages q ! i)"
      by (simp add: find_by_id_def find_findIndex)
    from findIndex_Some[OF Some] have "\<exists>a \<in> set (delayedMessages q). ?P a"
      by (metis nth_mem)
    with Some f splice1_findIndex[OF Some] show ?thesis
      by (simp add: cancelDelayed_def)
  qed
qed

text \<open>
  Claim C9 says that \<open>cancelDelayed\<close> returns true and removes the message when the id
  is in the delayed collection. The code removes one entry, and \<open>fail\<close> can have put the
  message there twice: the delayed message \<open>a\<close> is failed once, which pushes it onto the
  delayed collection a second time; \<open>cancelDelayed\<close> then returns true and the message is
  still in the delayed collection, from where a later \<open>dequeue\<close> promotes and returns it.
\<close>

theorem cancelDelayed_leaves_duplicate:
  "reachable ex_delayed_failed \<and>
   delayedMessages ex_delayed_failed = [0, 0] \<and>
   msg_id (store ex_delayed_failed ! 0) = ''a'' \<and>
   fst ex_cancelled \<and>
   delayedMessages (snd ex_cancelled) = [0] \<and>
   fst (dequeue (snd ex_cancelled) 5000 5000 5000) = Some 0"
proof -
  have "reachable ex_delayed_failed"
    unfolding ex_delayed_failed_def ex_delayed_def ex_new_def
    by (intro reachable.intros)
  moreover have "delayedMessages ex_delayed_failed = [0, 0] \<and>
      msg_id (store ex_delayed_failed ! 0) = ''a'' \<and>
      fst ex_cancelled \<and>
      delayedMessages (snd ex_cancelled) = [0] \<and>
      fst (dequeue (snd ex_cancelled) 5000 5000 5000) = Some 0"
    by (simp add: ex_cancelled_def ex_delayed_failed_def fail_def cancelDelayed_def
        splice1_def dequeue_def ex_defs)
  ultimately show ?thesis by simp
qed

section \<open>retryDeadLetter\<close>

text \<open>
  What \<open>retryDeadLetter(id)\<close> does in any state: when an entry of the dead-letter
  collection carries the id, it returns true, splices out one entry, the first with the
  id, sets the message's \<open>processingAttempts\<close> to 0, clears \<open>failureReason\<close>,
  \<open>delayUntil\<close> and \<open>processingStartedAt\<close>, sets its status to Pending and adds it to the
  ready collection. When no entry of the dead-letter collection carries the id, it returns
  false and the state is unchanged, also when the message is in another collection.
\<close>

lemma retryDeadLetter_resets_and_requeues:
  "(fst (retryDeadLetter q mid now) \<longleftrightarrow>
      (\<exists>a \<in> set (deadLetterMessages q). msg_id (store q ! a) = mid)) \<and>
   (\<forall>a. find_by_id (store q) mid (deadLetterMessages q) = Some a \<and> a < length (store q) \<longrightarrow>
      fst (retryDeadLetter q mid now) \<and>
      deadLetterMessages (snd (retryDeadLetter q mid now)) = remove1 a (deadLetterMessages q) \<and>
      processingAttempts (store (snd (retryDeadLetter q mid now)) ! a) = 0 \<and>
      failureReason (store (snd (retryDeadLetter q mid now)) ! a) = None \<and>
      delayUntil (store (snd (retryDeadLetter q mid now)) ! a) = None \<and>
      processingStartedAt (store (snd (retryDeadLetter q mid now)) ! a) = None \<and>
      status (store (snd (retryDeadLetter q mid now)) ! a) = PENDING \<and>
      set (messages (snd (retryDeadLetter q mid now))) = insert a (set (messages q)) \<and>
      length (messages (snd (retryDeadLetter q mid now))) = length (messages q) + 1 \<and>
      delayedMessages (snd (retryDeadLetter q mid now)) = delayedMessages q) \<and>
   (find_by_id (store q) mid (deadLetterMessages q) = None \<longrightarrow>
      retryDeadLetter q mid now = (False, q))"
proof -
  let ?P = "\<lambda>a. msg_id (store q ! a) = mid"
  show ?thesis
  proof (cases "findIndex ?P (deadLetterMessages q)")
    case None
    then have f: "find_by_id (store q) mid (deadLetterMessages q) = None"
      by (simp add: find_by_id_def find_findIndex)
    from None have c: "retryDeadLetter q mid now = (False, q)"
      by (simp add: retryDeadLetter_def)
    from None have "\<forall>a \<in> set (deadLetterMessages q). \<not> ?P a"
      by (simp add: findIndex_None)
    with f c show ?thesis by simp
  next
    case (Some i)
    then have f: "find_by_id (store q) mid (deadLetterMessages q) = Some (deadLetterMessages q ! i)"
      by (simp add: find_by_id_def find_findIndex)
    from findIndex_Some[OF Some] have ex: "\<exists>a \<in> set (deadLetterMessages q). ?P a"
      by (metis nth_mem)
    from Some have r: "fst (retryDeadLetter q mid now)"
      by (simp add: retryDeadLetter_def Let_def)
    from Some splice1_findIndex[OF Some] show ?thesis
      using f ex r
      by (simp add: retryDeadLetter_def Let_def set_sort_refs length_sort_refs)
  qed
qed

text \<open>
  Claim C7 says that \<open>retryDeadLetter\<close> removes the message from the dead-letter
  collection. The code removes one entry, and \<open>fail\<close> can have put the message there twice:
  with \<open>maxRetries = 1\<close> the message \<open>a\<close> is failed, which dead-letters it, and failed
  again, which pushes it onto the dead-letter collection a second time;
  \<open>retryDeadLetter\<close> then returns true, and the message is Pending in the ready collection
  and still in the dead-letter collection.
\<close>

theorem retryDeadLetter_leaves_duplicate:
  "reachable ex_dead_twice \<and>
   deadLetterMessages ex_dead_twice = [0, 0] \<and>
   msg_id (store ex_dead_twice ! 0) = ''a'' \<and>
   fst ex_dead_retried \<and>
   deadLetterMessages (snd ex_dead_retried) = [0] \<and>
   messages (snd ex_dead_retried) = [0] \<and>
   status (store (snd ex_dead_retried) ! 0) = PENDING"
proof -
  have "reachable ex_dead_twice"
    unfolding ex_dead_twice_def ex_dead_def ex_one_try_def
    by (intro reachable.intros)
  moreover have "deadLetterMessages ex_dead_twice = [0, 0] \<and>
      msg_id (store ex_dead_twice ! 0) = ''a'' \<and>
      fst ex_dead_retried \<and>
      deadLetterMessages (snd ex_dead_retried) = [0] \<and>
      messages (snd ex_dead_retried) = [0] \<and>
      status (store (snd ex_dead_retried) ! 0) = PENDING"
    by (simp add: ex_dead_retried_def ex_dead_twice_def ex_dead_def ex_one_try_def fail_def
        retryDeadLetter_def splice1_def ex_defs)
  ultimately show ?thesis by simp
qed

section \<open>The sweep of the delayed collection\<close>

lemma frame_refl: "frame h h"
  by (simp add: frame_def)

lemma frame_trans: "frame h h1 \<Longrightarrow> frame h1 h2 \<Longrightarrow> frame h h2"
  by (simp add: frame_def)

lemma frame_promote: "frame h (h[a := (h ! a)\<lparr>status := PENDING, updatedAt := now\<rparr>])"
proof (cases "a < length h")
  case True
  then show ?thesis by (simp add: frame_def nth_list_update)
next
  case False
  then have "h[a := (h ! a)\<lparr>status := PENDING, updatedAt := now\<rparr>] = h"
    by (simp add: not_less list_update_beyond)
  then show ?thesis by (simp add: frame_refl)
qed

lemma frame_elapsed: "frame h h' \<Longrightarrow> elapsed now (h' ! b) = elapsed now (h ! b)"
  by (simp add: frame_def elapsed_def)

lemma sweep_loop_frame: "frame h (fst (sweep_loop now as h r s))"
proof (induction as arbitrary: h r s)
  case Nil
  then show ?case by (simp add: frame_refl)
next
  case (Cons a as)
  show ?case
  proof (cases "elapsed now (h ! a)")
    case True
    let ?h = "h[a := (h ! a)\<lparr>status := PENDING, updatedAt := now\<rparr>]"
    have "frame h ?h" by (rule frame_promote)
    moreover have "frame ?h (fst (sweep_loop now as ?h (r @ [a]) s))" by (rule Cons.IH)
    ultimately show ?thesis using True by (simp add: frame_trans[of h ?h])
  next
    case False
    with Cons.IH show ?thesis by simp
  qed
qed

lemma sweep_loop_lists:
  "snd (sweep_loop now as h r s) =
     (r @ filter (\<lambda>a. elapsed now (h ! a)) as, s @ filter (\<lambda>a. \<not> elapsed now (h ! a)) as)"
proof (induction as arbitrary: h r s)
  case Nil
  then show ?case by simp
next
  case (Cons a as)
  show ?case
  proof (cases "elapsed now (h ! a)")
    case True
    let ?h = "h[a := (h ! a)\<lparr>status := PENDING, updatedAt := now\<rparr>]"
    have "\<And>b. elapsed now (?h ! b) = elapsed now (h ! b)"
      by (rule frame_elapsed) (rule frame_promote)
    with True Cons.IH[of ?h "r @ [a]" s] show ?thesis by simp
  next
    case False
    with Cons.IH[of h r "s @ [a]"] show ?thesis by simp
  qed
qed

lemma sweep_loop_status:
  "b < length h \<Longrightarrow>
   status (fst (sweep_loop now as h r s) ! b) =
     (if b \<in> set as \<and> elapsed now (h ! b) then PENDING else status (h ! b))"
proof (induction as arbitrary: h r s)
  case Nil
  then show ?case by simp
next
  case (Cons a as)
  show ?case
  proof (cases "elapsed now (h ! a)")
    case True
    let ?h = "h[a := (h ! a)\<lparr>status := PENDING, updatedAt := now\<rparr>]"
    have el: "elapsed now (?h ! b) = elapsed now (h ! b)"
      by (rule frame_elapsed) (rule frame_promote)
    from Cons.prems have st: "status (?h ! b) = (if a = b then PENDING else status (h ! b))"
      by (auto simp: nth_list_update)
    from Cons.prems have "b < length ?h" by simp
    from Cons.IH[OF this]
    have "status (fst (sweep_loop now as ?h (r @ [a]) s) ! b) =
            (if b \<in> set as \<and> elapsed now (h ! b) then PENDING
             else if a = b then PENDING else status (h ! b))"
      by (simp only: el st)
    moreover have "sweep_loop now (a # as) h r s = sweep_loop now as ?h (r @ [a]) s"
      using True by simp
    ultimately show ?thesis using True by auto
  next
    case False
    with Cons.IH[OF Cons.prems] show ?thesis by auto
  qed
qed

lemma sweep_cases:
  obtains h where "sweep_loop now (delayedMessages q) (store q) [] [] =
     (h, filter (\<lambda>a. elapsed now (store q ! a)) (delayedMessages q),
         filter (\<lambda>a. \<not> elapsed now (store q ! a)) (delayedMessages q))"
    "frame (store q) h"
    "\<And>b. b < length (store q) \<Longrightarrow> status (h ! b) =
        (if b \<in> set (delayedMessages q) \<and> elapsed now (store q ! b) then PENDING
         else status (store q ! b))"
proof -
  let ?r = "sweep_loop now (delayedMessages q) (store q) [] []"
  have "?r = (fst ?r, snd ?r)" by simp
  then have "?r = (fst ?r, filter (\<lambda>a. elapsed now (store q ! a)) (delayedMessages q),
         filter (\<lambda>a. \<not> elapsed now (store q ! a)) (delayedMessages q))"
    by (simp add: sweep_loop_lists)
  moreover have "frame (store q) (fst ?r)" by (rule sweep_loop_frame)
  moreover have "\<And>b. b < length (store q) \<Longrightarrow> status (fst ?r ! b) =
        (if b \<in> set (delayedMessages q) \<and> elapsed now (store q ! b) then PENDING
         else status (store q ! b))"
    by (rule sweep_loop_status)
  ultimately show ?thesis using that by blast
qed

lemma check_delayed:
  "delayedMessages (checkDelayedMessages q now) =
     filter (\<lambda>a. \<not> elapsed now (store q ! a)) (delayedMessages q)"
  by (rule sweep_cases[of now q]) (simp add: checkDelayedMessages_def)

lemma check_messages_set:
  "set (messages (checkDelayedMessages q now)) =
     set (messages q) \<union> {a \<in> set (delayedMessages q). elapsed now (store q ! a)}"
proof -
  have "set (messages (checkDelayedMessages q now)) =
     set (messages q) \<union> set (filter (\<lambda>a. elapsed now (store q ! a)) (delayedMessages q))"
    by (rule sweep_cases[of now q])
       (simp add: checkDelayedMessages_def set_sort_refs del: set_filter)
  then show ?thesis by simp
qed

lemma check_frame: "frame (store q) (store (checkDelayedMessages q now))"
  by (rule sweep_cases[of now q]) (simp add: checkDelayedMessages_def)

lemma check_status:
  "b < length (store q) \<Longrightarrow>
   status (store (checkDelayedMessages q now) ! b) =
     (if b \<in> set (delayedMessages q) \<and> elapsed now (store q ! b) then PENDING
      else status (store q ! b))"
  by (rule sweep_cases[of now q]) (simp add: checkDelayedMessages_def)

lemma check_others:
  "deadLetterMessages (checkDelayedMessages q now) = deadLetterMessages q"
  "options (checkDelayedMessages q now) = options q"
  "processingMessages (checkDelayedMessages q now) = processingMessages q"
  by (rule sweep_cases[of now q], simp add: checkDelayedMessages_def)+

lemma ordered_refs_frame: "frame h h' \<Longrightarrow> ordered_refs h' xs = ordered_refs h xs"
  by (simp add: frame_def ordered_refs_def ordering_policy_def)

lemma ordered_refs_filter: "ordered_refs h xs \<Longrightarrow> ordered_refs h (filter P xs)"
  by (simp add: ordered_refs_def sorted_wrt_filter)

lemma check_messages_ordered:
  "ordered_refs (store q) (messages q) \<Longrightarrow>
   ordered_refs (store (checkDelayedMessages q now)) (messages (checkDelayedMessages q now))"
  by (rule sweep_cases[of now q])
     (auto simp: checkDelayedMessages_def ordered_sort_refs ordered_refs_frame)

lemma check_delayed_ordered:
  "ordered_refs (store q) (delayedMessages q) \<Longrightarrow>
   ordered_refs (store (checkDelayedMessages q now)) (delayedMessages (checkDelayedMessages q now))"
  using check_frame[of q now]
  by (simp add: check_delayed ordered_refs_frame ordered_refs_filter)

section \<open>Membership of the collections\<close>

text \<open>
  Claim C4 says that in every reachable state an id occurs in at most one collection and at
  most once there. The code does not keep this: the retry branch of \<open>fail\<close> removes the
  message from the ready collection only, and then pushes it onto the delayed collection.
  Failing the message \<open>a\<close> twice, with the default options, leaves the same message twice
  in the delayed collection.
\<close>

theorem fail_twice_duplicates_delayed:
  "reachable ex_failed_twice \<and>
   delayedMessages ex_failed_twice = [0, 0] \<and>
   msg_id (store ex_failed_twice ! 0) = ''a''"
proof -
  have "reachable ex_failed_twice"
    unfolding ex_failed_twice_def ex_failed_once_def ex_ready_def ex_new_def
    by (intro reachable.intros)
  moreover have "delayedMessages ex_failed_twice = [0, 0] \<and>
      msg_id (store ex_failed_twice ! 0) = ''a''"
    by (simp add: ex_failed_twice_def ex_failed_once_def fail_def ex_defs)
  ultimately show ?thesis by simp
qed

section \<open>Status and collection of a new message\<close>

text \<open>
  Claim C5 says that a new message is Delayed exactly when the delay is positive, and sits
  in the delayed collection exactly when it is Delayed. The code takes the status from the
  truthiness of the delay and the collection from \<open>delay > 0\<close>: with a delay of \<open>-1\<close> the
  message gets the status Delayed and no \<open>delayUntil\<close>, and is put into the ready
  collection, where \<open>peek\<close> does not select it.
\<close>

theorem enqueue_negative_delay:
  "fst ex_negative_delay = 0 \<and>
   status (store (snd ex_negative_delay) ! 0) = DELAYED \<and>
   delayUntil (store (snd ex_negative_delay) ! 0) = None \<and>
   messages (snd ex_negative_delay) = [0] \<and>
   delayedMessages (snd ex_negative_delay) = [] \<and>
   fst (peek (snd ex_negative_delay) 1000) = None"
  by (simp add: ex_negative_delay_def peek_def ex_defs)

section \<open>The order of the delayed collection\<close>

text \<open>
  Claim C6 as stated fails: the delayed collection is sorted with \<open>sortByPriorityAndTime\<close>,
  which does not read \<open>delayUntil\<close>. The message enqueued first (time 0, delay 1000) stays
  in front of the one enqueued second (time 1, delay 10), which is due earlier.
\<close>

theorem delayed_not_ordered_by_delayUntil:
  "delayedMessages ex_two_delayed = [0, 1] \<and>
   delayUntil (store ex_two_delayed ! 0) = Some 1000 \<and>
   delayUntil (store ex_two_delayed ! 1) = Some 11 \<and>
   \<not> ordered_by_delayUntil (store ex_two_delayed) (delayedMessages ex_two_delayed)"
  by (simp add: ex_two_delayed_def ordered_by_delayUntil_def ex_defs)

lemma enqueue_delayed_ordered:
  assumes "opt_delay eo = Some dl" "0 < dl"
    and "opt_id eo = None \<or> opt_id eo = Some [] \<or>
         (\<exists>s. opt_id eo = Some s \<and> findMessageById q s = None)"
  shows "ordered_refs (store (snd (enqueue q now gen d eo)))
           (delayedMessages (snd (enqueue q now gen d eo)))"
  using assms
  by (auto simp: enqueue_def truthy_str_def Let_def ordered_sort_refs split: option.splits)

lemma fail_delayed_ordered:
  assumes "findMessageById q mid = Some a"
    and "processingAttempts (store q ! a) + 1 < maxRetries (options q)"
  shows "ordered_refs (store (snd (fail q mid reason t1 t2 t3)))
           (delayedMessages (snd (fail q mid reason t1 t2 t3)))"
  using assms
  by (auto simp: fail_def Let_def ordered_sort_refs check_delayed_ordered)

text \<open>
  Claim C6, amended. After an \<open>enqueue\<close> with a positive delay that creates a message (no
  truthy id is given, or the id is in no collection), and after a \<open>fail\<close> that leaves the
  attempt count below \<open>maxRetries\<close>, the delayed collection is in the order of the Ordering
  Policy: priority descending, then \<open>createdAt\<close> ascending.
\<close>

theorem delayed_ordered_by_priority_and_time:
  "(\<forall>dl. opt_delay eo = Some dl \<and> 0 < dl \<and>
         (opt_id eo = None \<or> opt_id eo = Some [] \<or>
          (\<exists>s. opt_id eo = Some s \<and> findMessageById q s = None)) \<longrightarrow>
      ordered_refs (store (snd (enqueue q now gen d eo)))
        (delayedMessages (snd (enqueue q now gen d eo)))) \<and>
   (\<forall>a. findMessageById q mid = Some a \<and>
        processingAttempts (store q ! a) + 1 < maxRetries (options q) \<longrightarrow>
      ordered_refs (store (snd (fail q mid reason t1 t2 t3)))
        (delayedMessages (snd (fail q mid reason t1 t2 t3))))"
  using enqueue_delayed_ordered[of eo _ q now gen d]
    fail_delayed_ordered[of q mid _ reason t1 t2 t3]
  by blast

text \<open>
  In both examples the sort moves the new entry in front: the message of priority 7 goes
  before the delayed one of priority 0, and the failed message created at time 0 goes
  before the delayed one created at time 5. In the order of insertion neither collection
  would be ordered.
\<close>

theorem delayed_ordered_by_priority_and_time_witness:
  "opt_delay urgent_later = Some 10 \<and> opt_id urgent_later = None \<and>
   delayedMessages ex_delayed = [0] \<and>
   priority (store ex_delayed_urgent ! 0) = 0 \<and> priority (store ex_delayed_urgent ! 1) = 7 \<and>
   delayedMessages ex_delayed_urgent = [1, 0] \<and>
   ordered_refs (store ex_delayed_urgent) (delayedMessages ex_delayed_urgent) \<and>
   \<not> ordered_refs (store ex_delayed_urgent) [0, 1] \<and>
   findMessageById ex_mixed ''a'' = Some 0 \<and>
   processingAttempts (store ex_mixed ! 0) + 1 < maxRetries (options ex_mixed) \<and>
   delayedMessages ex_mixed = [1] \<and>
   priority (store ex_mixed_failed ! 0) = priority (store ex_mixed_failed ! 1) \<and>
   createdAt (store ex_mixed_failed ! 0) = 0 \<and> createdAt (store ex_mixed_failed ! 1) = 5 \<and>
   delayedMessages ex_mixed_failed = [0, 1] \<and>
   ordered_refs (store ex_mixed_failed) (delayedMessages ex_mixed_failed) \<and>
   \<not> ordered_refs (store ex_mixed_failed) [1, 0]"
proof -
  have e: "opt_delay urgent_later = Some 10" "opt_id urgent_later = None"
    "delayedMessages ex_delayed = [0]"
    "priority (store ex_delayed_urgent ! 0) = 0" "priority (store ex_delayed_urgent ! 1) = 7"
    "delayedMessages ex_delayed_urgent = [1, 0]"
    "\<not> ordered_refs (store ex_delayed_urgent) [0, 1]"
    by (simp_all add: ex_delayed_urgent_def urgent_later_def ordered_refs_def
        ordering_policy_def ex_defs)
  have f: "findMessageById ex_mixed ''a'' = Some 0"
    "processingAttempts (store ex_mixed ! 0) + 1 < maxRetries (options ex_mixed)"
    "delayedMessages ex_mixed = [1]"
    "priority (store ex_mixed_failed ! 0) = priority (store ex_mixed_failed ! 1)"
    "createdAt (store ex_mixed_failed ! 0) = 0" "createdAt (store ex_mixed_failed ! 1) = 5"
    "delayedMessages ex_mixed_failed = [0, 1]"
    "\<not> ordered_refs (store ex_mixed_failed) [1, 0]"
    by (simp_all add: ex_mixed_failed_def ex_mixed_def fail_def ordered_refs_def
        ordering_policy_def ex_defs)
  from delayed_ordered_by_priority_and_time[where eo = urgent_later and q = ex_delayed
      and now = 1 and gen = "generateUniqueId ''t1'' ''r1''" and d = "''urgent''"
      and mid = "''a''" and reason = None and ?t1.0 = 1 and ?t2.0 = 1 and ?t3.0 = 1] e(1,2)
  have c1: "ordered_refs (store ex_delayed_urgent) (delayedMessages ex_delayed_urgent)"
    unfolding ex_delayed_urgent_def by simp
  from delayed_ordered_by_priority_and_time[where eo = urgent_later and q = ex_mixed
      and now = 1 and gen = "generateUniqueId ''t1'' ''r1''" and d = "''urgent''"
      and mid = "''a''" and reason = "Some ''first''" and ?t1.0 = 6 and ?t2.0 = 6
      and ?t3.0 = 6] f(1,2)
  have c2: "ordered_refs (store ex_mixed_failed) (delayedMessages ex_mixed_failed)"
    unfolding ex_mixed_failed_def by simp
  from e f c1 c2 show ?thesis by simp
qed

section \<open>Invariants of the reachable states\<close>

lemma same_keys_update:
  assumes "msg_id m = msg_id (h ! a)" "priority m = priority (h ! a)"
    "createdAt m = createdAt (h ! a)"
  shows "same_keys h (h[a := m])"
proof (cases "a < length h")
  case True
  with assms show ?thesis by (simp add: same_keys_def nth_list_update)
next
  case False
  then have "h[a := m] = h" by (simp add: not_less list_update_beyond)
  then show ?thesis by (simp add: same_keys_def)
qed

lemma frame_same_keys: "frame h h' \<Longrightarrow> same_keys h h'"
  by (simp add: frame_def same_keys_def)

lemma same_keys_ordered: "same_keys h h' \<Longrightarrow> ordered_refs h' xs = ordered_refs h xs"
  by (simp add: same_keys_def ordered_refs_def ordering_policy_def)


lemma same_keys_ids: "same_keys h h' \<Longrightarrow> ids_nonempty h' = ids_nonempty h"
  by (simp add: same_keys_def ids_nonempty_def)

lemma same_keys_trans: "same_keys h h1 \<Longrightarrow> same_keys h1 h2 \<Longrightarrow> same_keys h h2"
  by (simp add: same_keys_def)

text \<open>A step that keeps the keys of the store and takes its references from the old ones.\<close>

lemma queue_inv_same_keys:
  assumes "queue_inv q" "same_keys (store q) (store q')"
    and "set (messages q') \<subseteq> set (messages q @ delayedMessages q @ deadLetterMessages q)"
    and "set (delayedMessages q') \<subseteq> set (messages q @ delayedMessages q @ deadLetterMessages q)"
    and "set (deadLetterMessages q') \<subseteq> set (messages q @ delayedMessages q @ deadLetterMessages q)"
    and "ordered_refs (store q') (messages q')"
  shows "queue_inv q'"
proof -
  from assms(2) have len: "length (store q') = length (store q)" by (simp add: same_keys_def)
  from assms(1) have v: "\<forall>a \<in> set (messages q @ delayedMessages q @ deadLetterMessages q).
      a < length (store q)"
    by (simp add: queue_inv_def refs_valid_def)
  have "refs_valid q'"
    unfolding refs_valid_def using assms(3-5) v len by auto
  moreover from assms(1,2) have "ids_nonempty (store q')"
    by (simp add: queue_inv_def same_keys_ids)
  ultimately show ?thesis using assms(6) by (simp add: queue_inv_def)
qed

lemma inv_new: "queue_inv (new_queue opts)"
  by (simp add: queue_inv_def new_queue_def refs_valid_def ordered_refs_def ids_nonempty_def)

lemma inv_check: "queue_inv q \<Longrightarrow> queue_inv (checkDelayedMessages q now)"
proof (rule queue_inv_same_keys[of q])
  assume i: "queue_inv q"
  show "queue_inv q" by (rule i)
  show "same_keys (store q) (store (checkDelayedMessages q now))"
    by (rule frame_same_keys) (rule check_frame)
  show "set (messages (checkDelayedMessages q now))
      \<subseteq> set (messages q @ delayedMessages q @ deadLetterMessages q)"
    by (auto simp: check_messages_set)
  show "set (delayedMessages (checkDelayedMessages q now))
      \<subseteq> set (messages q @ delayedMessages q @ deadLetterMessages q)"
    by (auto simp: check_delayed)
  show "set (deadLetterMessages (checkDelayedMessages q now))
      \<subseteq> set (messages q @ delayedMessages q @ deadLetterMessages q)"
    by (auto simp: check_others)
  from i show "ordered_refs (store (checkDelayedMessages q now))
      (messages (checkDelayedMessages q now))"
    by (simp add: queue_inv_def check_messages_ordered)
qed

lemma inv_peek: "queue_inv q \<Longrightarrow> queue_inv (snd (peek q now))"
  by (simp add: peek_def Let_def inv_check)

lemma inv_dequeue: "queue_inv q \<Longrightarrow> queue_inv (snd (dequeue q now t1 t2))"
proof -
  assume "queue_inv q"
  then have i: "queue_inv (checkDelayedMessages q now)" by (rule inv_check)
  let ?q1 = "checkDelayedMessages q now"
  show ?thesis
  proof (cases "findIndex (\<lambda>a. status (store ?q1 ! a) = PENDING) (messages ?q1)")
    case None
    with i show ?thesis by (simp add: dequeue_def Let_def)
  next
    case (Some index)
    let ?a = "messages ?q1 ! index"
    let ?m = "(store ?q1 ! ?a)\<lparr>status := PROCESSING, processingStartedAt := Some t1,
                                     updatedAt := t2\<rparr>"
    have k: "same_keys (store ?q1) ((store ?q1)[?a := ?m])"
      by (rule same_keys_update) simp_all
    from Some have "snd (dequeue q now t1 t2) =
        ?q1\<lparr>store := (store ?q1)[?a := ?m],
             processingMessages := insert (msg_id ?m) (processingMessages ?q1)\<rparr>"
      by (simp add: dequeue_def Let_def)
    moreover have "queue_inv (?q1\<lparr>store := (store ?q1)[?a := ?m],
             processingMessages := insert (msg_id ?m) (processingMessages ?q1)\<rparr>)"
      using i k by (intro queue_inv_same_keys[OF i]) (auto simp: same_keys_ordered queue_inv_def)
    ultimately show ?thesis by simp
  qed
qed

lemma inv_complete: "queue_inv q \<Longrightarrow> queue_inv (snd (complete q mid now))"
proof -
  assume i: "queue_inv q"
  show ?thesis
  proof (cases "findMessageById q mid")
    case None
    with i show ?thesis by (simp add: complete_def)
  next
    case (Some a)
    let ?m = "(store q ! a)\<lparr>status := COMPLETED, updatedAt := now\<rparr>"
    have k: "same_keys (store q) ((store q)[a := ?m])"
      by (rule same_keys_update) simp_all
    from Some have "snd (complete q mid now) =
        q\<lparr>store := (store q)[a := ?m], processingMessages := processingMessages q - {mid}\<rparr>"
      by (simp add: complete_def)
    moreover have "queue_inv (q\<lparr>store := (store q)[a := ?m],
        processingMessages := processingMessages q - {mid}\<rparr>)"
      using i k by (intro queue_inv_same_keys[OF i]) (auto simp: same_keys_ordered queue_inv_def)
    ultimately show ?thesis by simp
  qed
qed

lemma inv_cancelDelayed: "queue_inv q \<Longrightarrow> queue_inv (snd (cancelDelayed q mid))"
proof -
  assume i: "queue_inv q"
  show ?thesis
  proof (cases "findIndex (\<lambda>a. msg_id (store q ! a) = mid) (delayedMessages q)")
    case None
    with i show ?thesis by (simp add: cancelDelayed_def)
  next
    case (Some index)
    have "set (splice1 index (delayedMessages q)) \<subseteq> set (delayedMessages q)"
      by (simp add: splice1_findIndex[OF Some] set_remove1_subset)
    then have "queue_inv (q\<lparr>delayedMessages := splice1 index (delayedMessages q)\<rparr>)"
      using i by (intro queue_inv_same_keys[OF i]) (auto simp: same_keys_def queue_inv_def)
    with Some show ?thesis by (simp add: cancelDelayed_def)
  qed
qed

lemma findMessageById_Some:
  "findMessageById q mid = Some a \<Longrightarrow>
     a \<in> set (messages q @ delayedMessages q @ deadLetterMessages q) \<and>
     msg_id (store q ! a) = mid"
  by (auto simp: findMessageById_def split: option.splits dest: find_by_id_Some)

lemma findMessageById_None:
  "findMessageById q mid = None \<longleftrightarrow>
     (\<forall>a \<in> set (messages q @ delayedMessages q @ deadLetterMessages q).
        msg_id (store q ! a) \<noteq> mid)"
  by (auto simp: findMessageById_def find_by_id_None split: option.splits
      dest: find_by_id_Some)

lemma ordered_refs_append:
  assumes v: "\<forall>a \<in> set xs. a < length h"
  shows "ordered_refs (h @ [m]) xs = ordered_refs h xs"
proof
  assume "ordered_refs (h @ [m]) xs"
  then show "ordered_refs h xs"
    unfolding ordered_refs_def
    by (rule sorted_wrt_mono_rel[rotated]) (use v in \<open>simp add: nth_append\<close>)
next
  assume "ordered_refs h xs"
  then show "ordered_refs (h @ [m]) xs"
    unfolding ordered_refs_def
    by (rule sorted_wrt_mono_rel[rotated]) (use v in \<open>simp add: nth_append\<close>)
qed

lemma same_keys_update_after:
  assumes "same_keys h h1" "msg_id m = msg_id (h ! a)" "priority m = priority (h ! a)"
    "createdAt m = createdAt (h ! a)"
  shows "same_keys h (h1[a := m])"
proof -
  from assms have "same_keys h1 (h1[a := m])"
    by (intro same_keys_update) (simp_all add: same_keys_def)
  with assms(1) show ?thesis by (rule same_keys_trans)
qed

lemma ids_nonempty_append:
  "ids_nonempty h \<Longrightarrow> msg_id m \<noteq> [] \<Longrightarrow> ids_nonempty (h @ [m])"
  by (auto simp: ids_nonempty_def nth_append less_Suc_eq)

text \<open>A step that appends one object to the store and adds its reference to one array.\<close>

lemma queue_inv_append:
  assumes "queue_inv q" "store q' = store q @ [m]" "msg_id m \<noteq> []"
    and "set (messages q') \<subseteq> insert (length (store q)) (set (messages q))"
    and "set (delayedMessages q') \<subseteq> insert (length (store q)) (set (delayedMessages q))"
    and "deadLetterMessages q' = deadLetterMessages q"
    and "ordered_refs (store q') (messages q')"
  shows "queue_inv q'"
proof -
  from assms(1) have v: "\<forall>a \<in> set (messages q @ delayedMessages q @ deadLetterMessages q).
      a < length (store q)"
    by (simp add: queue_inv_def refs_valid_def)
  have "refs_valid q'"
    unfolding refs_valid_def using assms(2,4,5,6) v by (auto simp: less_Suc_eq)
  moreover from assms(1,2,3) have "ids_nonempty (store q')"
    by (simp add: queue_inv_def ids_nonempty_append)
  ultimately show ?thesis using assms(7) by (simp add: queue_inv_def)
qed

lemma inv_enqueue:
  assumes i: "queue_inv q" and g: "gen \<noteq> []"
  shows "queue_inv (snd (enqueue q now gen d eo))"
proof -
  let ?mid = "case opt_id eo of None \<Rightarrow> gen | Some s \<Rightarrow> if s \<noteq> [] then s else gen"
  have mid: "?mid \<noteq> []" using g by (simp split: option.splits)
  let ?ex = "if truthy_str (opt_id eo) then findMessageById q ?mid else None"
  from i have v: "\<forall>a \<in> set (messages q). a < length (store q)"
    by (simp add: queue_inv_def refs_valid_def)
  from i have o: "ordered_refs (store q) (messages q)" by (simp add: queue_inv_def)
  show ?thesis
  proof (cases ?ex)
    case (Some a)
    then have "enqueue q now gen d eo = (a, q)" by (simp add: enqueue_def Let_def)
    with i show ?thesis by simp
  next
    case None
    let ?m = "\<lparr> msg_id = ?mid, data = d,
                status = (if truthy_num (opt_delay eo) then DELAYED else PENDING),
                priority = (case opt_priority eo of None \<Rightarrow> 0 | Some p \<Rightarrow> p),
                createdAt = now, updatedAt = now, delayUntil = None,
                processingStartedAt = None, processingAttempts = 0,
                failureReason = None \<rparr>"
    let ?a = "length (store q)"
    show ?thesis
    proof (cases "\<exists>dl. opt_delay eo = Some dl \<and> 0 < dl")
      case True
      then obtain dl where dl: "opt_delay eo = Some dl" "0 < dl" by blast
      let ?h = "store q @ [?m\<lparr>delayUntil := Some (now + dl)\<rparr>]"
      let ?q' = "q\<lparr>store := ?h, delayedMessages := sort_refs ?h (delayedMessages q @ [?a])\<rparr>"
      from None dl have e: "snd (enqueue q now gen d eo) = ?q'"
        by (simp add: enqueue_def Let_def)
      have "queue_inv ?q'"
        using mid o v
        by (intro queue_inv_append[OF i, of ?q' "?m\<lparr>delayUntil := Some (now + dl)\<rparr>"])
           (auto simp: set_sort_refs ordered_refs_append)
      with e show ?thesis by simp
    next
      case False
      let ?h = "store q @ [?m]"
      let ?q' = "q\<lparr>store := ?h, messages := sort_refs ?h (messages q @ [?a])\<rparr>"
      from None False have e: "snd (enqueue q now gen d eo) = ?q'"
        by (auto simp: enqueue_def Let_def split: option.splits)
      have "queue_inv ?q'"
        using mid
        by (intro queue_inv_append[OF i, of ?q' ?m])
           (auto simp: set_sort_refs ordered_sort_refs)
      with e show ?thesis by simp
    qed
  qed
qed

lemma inv_retryDeadLetter: "queue_inv q \<Longrightarrow> queue_inv (snd (retryDeadLetter q mid now))"
proof -
  assume i: "queue_inv q"
  show ?thesis
  proof (cases "findIndex (\<lambda>a. msg_id (store q ! a) = mid) (deadLetterMessages q)")
    case None
    with i show ?thesis by (simp add: retryDeadLetter_def)
  next
    case (Some index)
    let ?a = "deadLetterMessages q ! index"
    let ?h = "(store q)[?a := (store q ! ?a)\<lparr>processingAttempts := 0,
                processingStartedAt := None, status := PENDING, updatedAt := now,
                failureReason := None, delayUntil := None\<rparr>]"
    let ?q' = "q\<lparr>store := ?h, deadLetterMessages := splice1 index (deadLetterMessages q),
                  messages := sort_refs ?h (messages q @ [?a])\<rparr>"
    have k: "same_keys (store q) ?h" by (rule same_keys_update) simp_all
    from findIndex_Some[OF Some] have a: "?a \<in> set (deadLetterMessages q)" by simp
    have s: "set (splice1 index (deadLetterMessages q)) \<subseteq> set (deadLetterMessages q)"
      by (simp add: splice1_findIndex[OF Some] set_remove1_subset)
    have "queue_inv ?q'"
      using k a s by (intro queue_inv_same_keys[OF i]) (auto simp: set_sort_refs ordered_sort_refs)
    with Some show ?thesis by (simp add: retryDeadLetter_def Let_def)
  qed
qed

lemma inv_fail: "queue_inv q \<Longrightarrow> queue_inv (snd (fail q mid reason t1 t2 t3))"
proof -
  assume i: "queue_inv q"
  show ?thesis
  proof (cases "findMessageById q mid")
    case None
    with i show ?thesis by (simp add: fail_def)
  next
    case (Some a)
    from findMessageById_Some[OF Some]
    have a: "a \<in> set (messages q @ delayedMessages q @ deadLetterMessages q)" by simp
    let ?m = "(store q ! a)\<lparr>status := FAILED, updatedAt := t1, failureReason := reason,
                 processingAttempts := processingAttempts (store q ! a) + 1\<rparr>"
    let ?q1 = "q\<lparr>store := (store q)[a := ?m],
                  processingMessages := processingMessages q - {mid}\<rparr>"
    have k1: "same_keys (store q) (store ?q1)"
      by simp (rule same_keys_update, simp_all)
    from i have o: "ordered_refs (store q) (messages q)" by (simp add: queue_inv_def)
    have i1: "queue_inv ?q1"
      using k1 o by (intro queue_inv_same_keys[OF i]) (auto simp: same_keys_ordered)
    let ?hd = "(store ?q1)[a := ?m\<lparr>status := DELAYED,
                 delayUntil := Some (t2 + retryDelay (options q))\<rparr>]"
    let ?q2 = "?q1\<lparr>store := ?hd,
                 messages := filter (\<lambda>b. msg_id (?hd ! b) \<noteq> mid) (messages ?q1),
                 delayedMessages := sort_refs ?hd (delayedMessages ?q1 @ [a])\<rparr>"
    have kd: "same_keys (store q) ?hd"
      by (rule same_keys_update_after[OF k1]) simp_all
    from o kd have "ordered_refs ?hd (messages q)" by (simp only: same_keys_ordered)
    then have od: "ordered_refs ?hd (filter (\<lambda>b. msg_id (?hd ! b) \<noteq> mid) (messages q))"
      by (rule ordered_refs_filter)
    have i2: "queue_inv ?q2"
    proof (rule queue_inv_same_keys[OF i])
      show "same_keys (store q) (store ?q2)" using kd by simp
      show "ordered_refs (store ?q2) (messages ?q2)" using od by simp
    qed (use a in \<open>auto simp: set_sort_refs\<close>)
    let ?hl = "(store ?q1)[a := ?m\<lparr>status := DEAD_LETTER\<rparr>]"
    let ?q3 = "?q1\<lparr>store := ?hl,
                 messages := filter (\<lambda>b. msg_id (?hl ! b) \<noteq> mid) (messages ?q1),
                 delayedMessages := filter (\<lambda>b. msg_id (?hl ! b) \<noteq> mid) (delayedMessages ?q1),
                 deadLetterMessages := deadLetterMessages ?q1 @ [a]\<rparr>"
    have kl: "same_keys (store q) ?hl"
      by (rule same_keys_update_after[OF k1]) simp_all
    from o kl have "ordered_refs ?hl (messages q)" by (simp only: same_keys_ordered)
    then have ol: "ordered_refs ?hl (filter (\<lambda>b. msg_id (?hl ! b) \<noteq> mid) (messages q))"
      by (rule ordered_refs_filter)
    have i3: "queue_inv ?q3"
    proof (rule queue_inv_same_keys[OF i])
      show "same_keys (store q) (store ?q3)" using kl by simp
      show "ordered_refs (store ?q3) (messages ?q3)" using ol by simp
    qed (use a in auto)
    from Some have "snd (fail q mid reason t1 t2 t3) = ?q1 \<or>
        snd (fail q mid reason t1 t2 t3) = ?q2 \<or>
        snd (fail q mid reason t1 t2 t3) = checkDelayedMessages ?q2 t3 \<or>
        snd (fail q mid reason t1 t2 t3) = ?q3"
      by (simp add: fail_def Let_def)
    with i1 i2 i3 inv_check[OF i2, of t3] show ?thesis by metis
  qed
qed

lemma reachable_inv: "reachable q \<Longrightarrow> queue_inv q"
proof (induction rule: reachable.induct)
  case (r_new opts)
  show ?case by (rule inv_new)
next
  case (r_enqueue q now tp rp d eo)
  then show ?case by (intro inv_enqueue) (simp_all add: generateUniqueId_def)
qed (simp_all add: inv_peek inv_dequeue inv_complete inv_fail inv_cancelDelayed
      inv_retryDeadLetter inv_check)

text \<open>
  In particular a reference that a lookup returns in a reachable state points into the
  store, which is what the theorems on \<open>fail\<close> and \<open>retryDeadLetter\<close> ask of it.
\<close>

lemma reachable_found_valid:
  assumes "reachable q"
  shows "findMessageById q mid = Some a \<Longrightarrow> a < length (store q)"
    and "find_by_id (store q) mid (deadLetterMessages q) = Some a \<Longrightarrow> a < length (store q)"
proof -
  from assms have v: "refs_valid q" by (simp add: reachable_inv[unfolded queue_inv_def])
  show "findMessageById q mid = Some a \<Longrightarrow> a < length (store q)"
    using v findMessageById_Some[of q mid a] by (simp add: refs_valid_def)
  show "find_by_id (store q) mid (deadLetterMessages q) = Some a \<Longrightarrow> a < length (store q)"
    using v find_by_id_Some[of "store q" mid "deadLetterMessages q" a]
    by (simp add: refs_valid_def)
qed

section \<open>Idempotent enqueue\<close>

lemma enqueue_existing:
  assumes "opt_id eo = Some X" "X \<noteq> []" "findMessageById q X = Some b"
  shows "enqueue q now gen d eo = (b, q)"
  using assms by (simp add: enqueue_def truthy_str_def Let_def)

lemma enqueue_new:
  assumes "opt_id eo = Some X" "X \<noteq> []" "findMessageById q X = None"
  shows "fst (enqueue q now gen d eo) = length (store q)"
    and "\<exists>m. store (snd (enqueue q now gen d eo)) = store q @ [m] \<and> msg_id m = X"
    and "set (messages (snd (enqueue q now gen d eo)) @
              delayedMessages (snd (enqueue q now gen d eo)) @
              deadLetterMessages (snd (enqueue q now gen d eo))) =
         insert (length (store q))
           (set (messages q @ delayedMessages q @ deadLetterMessages q))"
    and "totalSize (snd (enqueue q now gen d eo)) = totalSize q + 1"
  using assms
  by (auto simp: enqueue_def truthy_str_def Let_def set_sort_refs length_sort_refs totalSize_def
      split: option.splits)

text \<open>
  Claim C3. In every reachable state, when some entry of a collection carries the id
  \<open>X\<close>, \<open>enqueue(payload, {id: X})\<close> returns the reference of an existing message
  with that id (the one \<open>findMessageById\<close> finds) and leaves the whole state as it is:
  no object is allocated, no field changes, \<open>totalSize()\<close> is the same. So two
  enqueues with the same non-empty id that is in no collection before return the same
  reference, the second changes nothing, and \<open>totalSize()\<close> grows by exactly 1.
\<close>

theorem enqueue_existing_id_idempotent:
  "(reachable q \<and> opt_id eo = Some X \<and>
    a \<in> set (messages q @ delayedMessages q @ deadLetterMessages q) \<and>
    msg_id (store q ! a) = X \<longrightarrow>
      (\<exists>b. findMessageById q X = Some b \<and> msg_id (store q ! b) = X \<and>
           b \<in> set (messages q @ delayedMessages q @ deadLetterMessages q) \<and>
           enqueue q now gen d eo = (b, q)) \<and>
      totalSize (snd (enqueue q now gen d eo)) = totalSize q) \<and>
   (reachable q \<and> opt_id eo = Some X \<and> X \<noteq> [] \<and> findMessageById q X = None \<and>
    opt_id eo' = Some X \<longrightarrow>
      fst (enqueue (snd (enqueue q now gen d eo)) now' gen' d' eo') =
        fst (enqueue q now gen d eo) \<and>
      snd (enqueue (snd (enqueue q now gen d eo)) now' gen' d' eo') =
        snd (enqueue q now gen d eo) \<and>
      totalSize (snd (enqueue (snd (enqueue q now gen d eo)) now' gen' d' eo')) =
        totalSize q + 1)"
proof (intro conjI impI)
  assume h: "reachable q \<and> opt_id eo = Some X \<and>
    a \<in> set (messages q @ delayedMessages q @ deadLetterMessages q) \<and>
    msg_id (store q ! a) = X"
  then have i: "queue_inv q" by (simp add: reachable_inv)
  with h have "a < length (store q)" by (simp add: queue_inv_def refs_valid_def)
  with i h have X: "X \<noteq> []" by (auto simp: queue_inv_def ids_nonempty_def)
  from h have "findMessageById q X \<noteq> None" by (auto simp: findMessageById_None)
  then obtain b where b: "findMessageById q X = Some b" by blast
  from h X b have e: "enqueue q now gen d eo = (b, q)" by (simp add: enqueue_existing)
  with b findMessageById_Some[OF b]
  show "\<exists>b. findMessageById q X = Some b \<and> msg_id (store q ! b) = X \<and>
           b \<in> set (messages q @ delayedMessages q @ deadLetterMessages q) \<and>
           enqueue q now gen d eo = (b, q)" by blast
  from e show "totalSize (snd (enqueue q now gen d eo)) = totalSize q" by simp
next
  assume h: "reachable q \<and> opt_id eo = Some X \<and> X \<noteq> [] \<and> findMessageById q X = None \<and>
    opt_id eo' = Some X"
  then have i: "queue_inv q" by (simp add: reachable_inv)
  then have v: "\<forall>c \<in> set (messages q @ delayedMessages q @ deadLetterMessages q).
      c < length (store q)"
    by (simp add: queue_inv_def refs_valid_def)
  let ?r = "enqueue q now gen d eo"
  let ?q1 = "snd ?r"
  let ?a = "length (store q)"
  from h have n: "\<forall>c \<in> set (messages q @ delayedMessages q @ deadLetterMessages q).
      msg_id (store q ! c) \<noteq> X"
    by (simp add: findMessageById_None)
  from h have c: "opt_id eo = Some X" "X \<noteq> []" "findMessageById q X = None" by simp_all
  note new = enqueue_new[OF c, of now gen d]
  from new(2) obtain m where m: "store ?q1 = store q @ [m]" "msg_id m = X" by blast
  from new(3) have ain: "?a \<in> set (messages ?q1 @ delayedMessages ?q1 @ deadLetterMessages ?q1)"
    by blast
  from m have "msg_id (store ?q1 ! ?a) = X" by simp
  with ain have "findMessageById ?q1 X \<noteq> None" by (auto simp: findMessageById_None)
  then obtain b where b: "findMessageById ?q1 X = Some b" by blast
  from findMessageById_Some[OF b]
  have bin: "b \<in> set (messages ?q1 @ delayedMessages ?q1 @ deadLetterMessages ?q1)"
    and bid: "msg_id (store ?q1 ! b) = X" by simp_all
  have "b = ?a"
  proof (rule ccontr)
    assume ne: "b \<noteq> ?a"
    with bin new(3) have old: "b \<in> set (messages q @ delayedMessages q @ deadLetterMessages q)"
      by blast
    with v have "b < length (store q)" by blast
    with m bid have "msg_id (store q ! b) = X" by (simp add: nth_append)
    with n old show False by blast
  qed
  with b h have e2: "enqueue ?q1 now' gen' d' eo' = (?a, ?q1)"
    by (simp add: enqueue_existing)
  from new(1) e2 show "fst (enqueue ?q1 now' gen' d' eo') = fst ?r" by simp
  from e2 show "snd (enqueue ?q1 now' gen' d' eo') = ?q1" by simp
  from new(4) e2 show "totalSize (snd (enqueue ?q1 now' gen' d' eo')) = totalSize q + 1" by simp
qed

theorem enqueue_existing_id_idempotent_witness:
  "reachable ex_ready \<and> opt_id (with_id ''a'') = Some ''a'' \<and>
   messages ex_ready = [0] \<and> msg_id (store ex_ready ! 0) = ''a'' \<and>
   enqueue ex_ready 1 (generateUniqueId ''t1'' ''r1'') ''other'' (with_id ''a'') = (0, ex_ready) \<and>
   totalSize ex_ready = 1 \<and>
   reachable ex_new \<and> findMessageById ex_new ''a'' = None \<and> totalSize ex_new = 0 \<and>
   totalSize (snd (enqueue (snd (enqueue ex_new 0 (generateUniqueId ''t0'' ''r0'') ''task''
                                  (with_id ''a'')))
                     1 (generateUniqueId ''t1'' ''r1'') ''other'' (with_id ''a''))) =
     totalSize ex_new + 1"
proof -
  have r0: "reachable ex_new"
    unfolding ex_new_def by (rule reachable.intros)
  have r1: "reachable ex_ready"
    unfolding ex_ready_def ex_new_def by (intro reachable.intros)
  have e: "opt_id (with_id ''a'') = Some ''a''" "messages ex_ready = [0]"
    "msg_id (store ex_ready ! 0) = ''a''" "totalSize ex_ready = 1"
    "findMessageById ex_new ''a'' = None" "totalSize ex_new = 0"
    by (simp_all add: ex_defs totalSize_def)
  from e(2) have m: "0 \<in> set (messages ex_ready @ delayedMessages ex_ready @
      deadLetterMessages ex_ready)" by simp
  have ne: "''a'' \<noteq> []" by simp
  from enqueue_existing_id_idempotent[where q = ex_ready and eo = "with_id ''a''"
      and X = "''a''" and a = 0 and now = 1 and gen = "generateUniqueId ''t1'' ''r1''"
      and d = "''other''" and eo' = "with_id ''a''"] r1 e(1,3) m
  obtain b where b: "findMessageById ex_ready ''a'' = Some b"
    "enqueue ex_ready 1 (generateUniqueId ''t1'' ''r1'') ''other'' (with_id ''a'') = (b, ex_ready)"
    by blast
  have "findMessageById ex_ready ''a'' = Some 0" by (simp add: ex_defs)
  with b have c1:
    "enqueue ex_ready 1 (generateUniqueId ''t1'' ''r1'') ''other'' (with_id ''a'') = (0, ex_ready)"
    by simp
  from enqueue_existing_id_idempotent[where q = ex_new and eo = "with_id ''a''"
      and X = "''a''" and a = 0 and now = 0 and gen = "generateUniqueId ''t0'' ''r0''"
      and d = "''task''" and eo' = "with_id ''a''" and now' = 1
      and gen' = "generateUniqueId ''t1'' ''r1''" and d' = "''other''"] r0 e(1,5) ne
  have c2: "totalSize (snd (enqueue (snd (enqueue ex_new 0 (generateUniqueId ''t0'' ''r0'')
      ''task'' (with_id ''a''))) 1 (generateUniqueId ''t1'' ''r1'') ''other'' (with_id ''a''))) =
      totalSize ex_new + 1"
    by blast
  from r0 r1 e c1 c2 show ?thesis by simp
qed

section \<open>Selection by dequeue and peek\<close>

lemmas ex_p_defs = ex_p1_def ex_p2_def ex_p3_def ex_d1_def ex_d2_def ex_d3_def dequeue_def

lemma first_pending_greatest:
  assumes o: "ordered_refs (store q) (messages q)"
    and f: "findIndex (\<lambda>a. status (store q ! a) = PENDING) (messages q) = Some i"
  shows "greatest_pending q (messages q ! i)"
proof -
  let ?P = "\<lambda>a. status (store q ! a) = PENDING"
  let ?le = "\<lambda>a b. ordering_policy (store q ! a) (store q ! b)"
  from findIndex_Some[OF f]
  have i: "i < length (messages q)" and p: "?P (messages q ! i)"
    and n: "\<forall>j < i. \<not> ?P (messages q ! j)" by simp_all
  from o have s: "sorted_wrt ?le (messages q)" by (simp add: ordered_refs_def)
  have "?le (messages q ! i) b" if b: "b \<in> set (messages q)" "?P b" for b
  proof -
    from b(1) obtain j where j: "j < length (messages q)" "messages q ! j = b"
      by (auto simp: in_set_conv_nth)
    with b(2) n have "\<not> j < i" by auto
    then consider "j = i" | "i < j" by linarith
    then show ?thesis
    proof cases
      case 1
      with j show ?thesis by (auto simp: ordering_policy_def)
    next
      case 2
      from sorted_wrt_nth_less[OF s 2 j(1)] j(2) show ?thesis by simp
    qed
  qed
  with i p show ?thesis by (simp add: greatest_pending_def)
qed

lemma dequeue_selects:
  assumes "reachable q"
  shows "(\<forall>a. fst (dequeue q now t1 t2) = Some a \<longrightarrow>
            greatest_pending (checkDelayedMessages q now) a) \<and>
         (fst (dequeue q now t1 t2) = None \<longrightarrow>
            (\<forall>b \<in> set (messages (checkDelayedMessages q now)).
               status (store (checkDelayedMessages q now) ! b) \<noteq> PENDING))"
proof -
  let ?q1 = "checkDelayedMessages q now"
  from assms have "queue_inv ?q1" by (simp add: reachable_inv inv_check)
  then have o: "ordered_refs (store ?q1) (messages ?q1)" by (simp add: queue_inv_def)
  show ?thesis
  proof (cases "findIndex (\<lambda>a. status (store ?q1 ! a) = PENDING) (messages ?q1)")
    case None
    then have "fst (dequeue q now t1 t2) = None" by (simp add: dequeue_def)
    moreover from None have "\<forall>b \<in> set (messages ?q1). status (store ?q1 ! b) \<noteq> PENDING"
      by (simp add: findIndex_None)
    ultimately show ?thesis by simp
  next
    case (Some i)
    then have "fst (dequeue q now t1 t2) = Some (messages ?q1 ! i)"
      by (simp add: dequeue_def Let_def)
    with first_pending_greatest[OF o Some] show ?thesis by simp
  qed
qed

lemma peek_selects:
  assumes "reachable q"
  shows "(\<forall>a. fst (peek q now) = Some a \<longrightarrow>
            greatest_pending (checkDelayedMessages q now) a) \<and>
         (fst (peek q now) = None \<longrightarrow>
            (\<forall>b \<in> set (messages (checkDelayedMessages q now)).
               status (store (checkDelayedMessages q now) ! b) \<noteq> PENDING)) \<and>
         snd (peek q now) = checkDelayedMessages q now"
proof -
  let ?q1 = "checkDelayedMessages q now"
  from assms have "queue_inv ?q1" by (simp add: reachable_inv inv_check)
  then have o: "ordered_refs (store ?q1) (messages ?q1)" by (simp add: queue_inv_def)
  have s: "snd (peek q now) = ?q1" by (simp add: peek_def Let_def)
  show ?thesis
  proof (cases "findIndex (\<lambda>a. status (store ?q1 ! a) = PENDING) (messages ?q1)")
    case None
    then have "fst (peek q now) = None" by (simp add: peek_def Let_def find_findIndex)
    moreover from None have "\<forall>b \<in> set (messages ?q1). status (store ?q1 ! b) \<noteq> PENDING"
      by (simp add: findIndex_None)
    ultimately show ?thesis using s by simp
  next
    case (Some i)
    then have "fst (peek q now) = Some (messages ?q1 ! i)"
      by (simp add: peek_def Let_def find_findIndex)
    with first_pending_greatest[OF o Some] s show ?thesis by simp
  qed
qed

lemma priority_scenario:
  "map_option (\<lambda>a. priority (store ex_p3 ! a)) (fst ex_d1) = Some 10 \<and>
   map_option (\<lambda>a. priority (store ex_p3 ! a)) (fst ex_d2) = Some 5 \<and>
   map_option (\<lambda>a. priority (store ex_p3 ! a)) (fst ex_d3) = Some 1"
  by (simp add: ex_p_defs ex_defs)

text \<open>
  Claim C2. In every reachable state, \<open>dequeue\<close> and \<open>peek\<close> first sweep the delayed
  collection and then return a message of the ready collection that is Pending and that
  the Ordering Policy ranks before or level with every Pending message of the ready
  collection: it has the highest priority among them, and among those of that priority
  the earliest \<open>createdAt\<close>. They return nothing only when the ready collection has no
  Pending message. A message with another status is never returned. Enqueueing the
  priorities 1, 10, 5 and dequeuing three times yields the priorities 10, 5, 1.
\<close>

theorem dequeue_greatest_pending:
  "(reachable q \<longrightarrow>
      (\<forall>a. fst (dequeue q now t1 t2) = Some a \<longrightarrow>
           greatest_pending (checkDelayedMessages q now) a) \<and>
      (fst (dequeue q now t1 t2) = None \<longrightarrow>
         (\<forall>b \<in> set (messages (checkDelayedMessages q now)).
            status (store (checkDelayedMessages q now) ! b) \<noteq> PENDING)) \<and>
      (\<forall>a. fst (peek q now) = Some a \<longrightarrow>
           greatest_pending (checkDelayedMessages q now) a) \<and>
      (fst (peek q now) = None \<longrightarrow>
         (\<forall>b \<in> set (messages (checkDelayedMessages q now)).
            status (store (checkDelayedMessages q now) ! b) \<noteq> PENDING))) \<and>
   map_option (\<lambda>a. priority (store ex_p3 ! a)) (fst ex_d1) = Some 10 \<and>
   map_option (\<lambda>a. priority (store ex_p3 ! a)) (fst ex_d2) = Some 5 \<and>
   map_option (\<lambda>a. priority (store ex_p3 ! a)) (fst ex_d3) = Some 1"
  using dequeue_selects[of q now t1 t2] peek_selects[of q now] priority_scenario
  by blast

text \<open>
  Among the three priorities the message of priority 10 is selected. Among two Pending
  messages of the same priority the one created earlier is selected, although it entered
  the ready collection after the other; the message created later is not a greatest one.
\<close>

theorem dequeue_greatest_pending_witness:
  "reachable ex_p3 \<and> messages ex_p3 = [1, 2, 0] \<and>
   fst (dequeue ex_p3 1 1 1) = Some 1 \<and> fst (peek ex_p3 1) = Some 1 \<and>
   greatest_pending (checkDelayedMessages ex_p3 1) 1 \<and>
   reachable ex_tie \<and> messages ex_tie = [1] \<and> delayedMessages ex_tie = [0] \<and>
   messages (checkDelayedMessages ex_tie 200) = [0, 1] \<and>
   status (store (checkDelayedMessages ex_tie 200) ! 0) = PENDING \<and>
   status (store (checkDelayedMessages ex_tie 200) ! 1) = PENDING \<and>
   priority (store ex_tie ! 0) = priority (store ex_tie ! 1) \<and>
   createdAt (store ex_tie ! 0) = 0 \<and> createdAt (store ex_tie ! 1) = 5 \<and>
   fst (dequeue ex_tie 200 200 200) = Some 0 \<and> fst (peek ex_tie 200) = Some 0 \<and>
   greatest_pending (checkDelayedMessages ex_tie 200) 0 \<and>
   \<not> greatest_pending (checkDelayedMessages ex_tie 200) 1"
proof -
  have r: "reachable ex_p3"
    unfolding ex_p3_def ex_p2_def ex_p1_def ex_new_def by (intro reachable.intros)
  have e: "messages ex_p3 = [1, 2, 0]" "fst (dequeue ex_p3 1 1 1) = Some 1"
    "fst (peek ex_p3 1) = Some 1"
    by (simp_all add: ex_p_defs peek_def ex_defs)
  from dequeue_greatest_pending[of ex_p3 1 1 1] r e(2)
  have g: "greatest_pending (checkDelayedMessages ex_p3 1) 1" by blast
  have rt: "reachable ex_tie"
    unfolding ex_tie_def ex_new_def by (intro reachable.intros)
  have t: "messages ex_tie = [1]" "delayedMessages ex_tie = [0]"
    "messages (checkDelayedMessages ex_tie 200) = [0, 1]"
    "status (store (checkDelayedMessages ex_tie 200) ! 0) = PENDING"
    "status (store (checkDelayedMessages ex_tie 200) ! 1) = PENDING"
    "priority (store ex_tie ! 0) = priority (store ex_tie ! 1)"
    "createdAt (store ex_tie ! 0) = 0" "createdAt (store ex_tie ! 1) = 5"
    "fst (dequeue ex_tie 200 200 200) = Some 0" "fst (peek ex_tie 200) = Some 0"
    "\<not> greatest_pending (checkDelayedMessages ex_tie 200) 1"
    by (simp_all add: ex_tie_def dequeue_def peek_def greatest_pending_def
        ordering_policy_def ex_defs)
  from dequeue_greatest_pending[of ex_tie 200 200 200] rt t(9)
  have gt: "greatest_pending (checkDelayedMessages ex_tie 200) 0" by blast
  from r e g rt t gt show ?thesis by simp
qed

section \<open>Broadcast of the topic queue\<close>





section \<open>fail\<close>

lemma fail_not_found: "findMessageById q mid = None \<Longrightarrow> fail q mid reason t1 t2 t3 = (False, q)"
  by (simp add: fail_def)

lemma fail_returns_true: "findMessageById q mid = Some a \<Longrightarrow> fst (fail q mid reason t1 t2 t3)"
  by (simp add: fail_def Let_def)

lemma fail_parked:
  assumes "findMessageById q mid = Some a" "a < length (store q)"
    and "\<not> processingAttempts (store q ! a) + 1 < maxRetries (options q)"
    and "\<not> deadLetterEnabled (options q)"
  shows "processingAttempts (store (snd (fail q mid reason t1 t2 t3)) ! a) =
           processingAttempts (store q ! a) + 1"
    and "failureReason (store (snd (fail q mid reason t1 t2 t3)) ! a) = reason"
    and "status (store (snd (fail q mid reason t1 t2 t3)) ! a) = FAILED"
    and "messages (snd (fail q mid reason t1 t2 t3)) = messages q"
    and "delayedMessages (snd (fail q mid reason t1 t2 t3)) = delayedMessages q"
    and "deadLetterMessages (snd (fail q mid reason t1 t2 t3)) = deadLetterMessages q"
  using assms by (simp_all add: fail_def Let_def)

lemma fail_dead_letter:
  assumes "findMessageById q mid = Some a" "a < length (store q)"
    and "\<not> processingAttempts (store q ! a) + 1 < maxRetries (options q)"
    and "deadLetterEnabled (options q)"
  shows "processingAttempts (store (snd (fail q mid reason t1 t2 t3)) ! a) =
           processingAttempts (store q ! a) + 1"
    and "failureReason (store (snd (fail q mid reason t1 t2 t3)) ! a) = reason"
    and "status (store (snd (fail q mid reason t1 t2 t3)) ! a) = DEAD_LETTER"
    and "a \<in> set (deadLetterMessages (snd (fail q mid reason t1 t2 t3)))"
    and "a \<notin> set (messages (snd (fail q mid reason t1 t2 t3)))"
    and "a \<notin> set (delayedMessages (snd (fail q mid reason t1 t2 t3)))"
proof -
  from findMessageById_Some[OF assms(1)] have "msg_id (store q ! a) = mid" by simp
  with assms show
    "processingAttempts (store (snd (fail q mid reason t1 t2 t3)) ! a) =
           processingAttempts (store q ! a) + 1"
    "failureReason (store (snd (fail q mid reason t1 t2 t3)) ! a) = reason"
    "status (store (snd (fail q mid reason t1 t2 t3)) ! a) = DEAD_LETTER"
    "a \<in> set (deadLetterMessages (snd (fail q mid reason t1 t2 t3)))"
    "a \<notin> set (messages (snd (fail q mid reason t1 t2 t3)))"
    "a \<notin> set (delayedMessages (snd (fail q mid reason t1 t2 t3)))"
    by (simp_all add: fail_def Let_def)
qed

text \<open>The state of the retry branch before the sweep.\<close>

lemma fail_retry_no_sweep:
  assumes "findMessageById q mid = Some a" "a < length (store q)"
    and "processingAttempts (store q ! a) + 1 < maxRetries (options q)"
    and "\<not> autoCheckDelayed (options q)"
  shows "processingAttempts (store (snd (fail q mid reason t1 t2 t3)) ! a) =
           processingAttempts (store q ! a) + 1"
    and "failureReason (store (snd (fail q mid reason t1 t2 t3)) ! a) = reason"
    and "delayUntil (store (snd (fail q mid reason t1 t2 t3)) ! a) =
           Some (t2 + retryDelay (options q))"
    and "status (store (snd (fail q mid reason t1 t2 t3)) ! a) = DELAYED"
    and "a \<in> set (delayedMessages (snd (fail q mid reason t1 t2 t3)))"
    and "a \<notin> set (messages (snd (fail q mid reason t1 t2 t3)))"
proof -
  from findMessageById_Some[OF assms(1)] have "msg_id (store q ! a) = mid" by simp
  with assms show
    "processingAttempts (store (snd (fail q mid reason t1 t2 t3)) ! a) =
           processingAttempts (store q ! a) + 1"
    "failureReason (store (snd (fail q mid reason t1 t2 t3)) ! a) = reason"
    "delayUntil (store (snd (fail q mid reason t1 t2 t3)) ! a) =
           Some (t2 + retryDelay (options q))"
    "status (store (snd (fail q mid reason t1 t2 t3)) ! a) = DELAYED"
    "a \<in> set (delayedMessages (snd (fail q mid reason t1 t2 t3)))"
    "a \<notin> set (messages (snd (fail q mid reason t1 t2 t3)))"
    by (simp_all add: fail_def Let_def set_sort_refs)
qed

lemma fail_retry_sweep:
  assumes f: "findMessageById q mid = Some a" and v: "a < length (store q)"
    and r: "processingAttempts (store q ! a) + 1 < maxRetries (options q)"
    and c: "autoCheckDelayed (options q)"
  shows "processingAttempts (store (snd (fail q mid reason t1 t2 t3)) ! a) =
           processingAttempts (store q ! a) + 1"
    and "failureReason (store (snd (fail q mid reason t1 t2 t3)) ! a) = reason"
    and "delayUntil (store (snd (fail q mid reason t1 t2 t3)) ! a) =
           Some (t2 + retryDelay (options q))"
    and "status (store (snd (fail q mid reason t1 t2 t3)) ! a) =
           (if t2 + retryDelay (options q) \<noteq> 0 \<and> t2 + retryDelay (options q) \<le> t3
            then PENDING else DELAYED)"
    and "a \<in> set (delayedMessages (snd (fail q mid reason t1 t2 t3))) \<longleftrightarrow>
           \<not> (t2 + retryDelay (options q) \<noteq> 0 \<and> t2 + retryDelay (options q) \<le> t3)"
    and "a \<in> set (messages (snd (fail q mid reason t1 t2 t3))) \<longleftrightarrow>
           (t2 + retryDelay (options q) \<noteq> 0 \<and> t2 + retryDelay (options q) \<le> t3)"
proof -
  let ?m = "(store q ! a)\<lparr>status := FAILED, updatedAt := t1, failureReason := reason,
               processingAttempts := processingAttempts (store q ! a) + 1\<rparr>"
  let ?q1 = "q\<lparr>store := (store q)[a := ?m],
                processingMessages := processingMessages q - {mid}\<rparr>"
  let ?h = "(store ?q1)[a := ?m\<lparr>status := DELAYED,
               delayUntil := Some (t2 + retryDelay (options q))\<rparr>]"
  define q2 where "q2 = ?q1\<lparr>store := ?h,
               messages := filter (\<lambda>b. msg_id (?h ! b) \<noteq> mid) (messages ?q1),
               delayedMessages := sort_refs ?h (delayedMessages ?q1 @ [a])\<rparr>"
  define du where "du = t2 + retryDelay (options q)"
  let ?q' = "snd (fail q mid reason t1 t2 t3)"
  from f r c have e: "?q' = checkDelayedMessages q2 t3"
    by (simp add: fail_def Let_def q2_def)
  from findMessageById_Some[OF f] have id: "msg_id (store q ! a) = mid" by simp
  from v have la: "a < length (store q2)" by (simp add: q2_def)
  from v have sa: "processingAttempts (store q2 ! a) = processingAttempts (store q ! a) + 1"
    "failureReason (store q2 ! a) = reason" "delayUntil (store q2 ! a) = Some du"
    "status (store q2 ! a) = DELAYED"
    by (simp_all add: q2_def du_def)
  from sa(3) have el: "elapsed t3 (store q2 ! a) \<longleftrightarrow> (du \<noteq> 0 \<and> du \<le> t3)"
    by (simp add: elapsed_def)
  have ad: "a \<in> set (delayedMessages q2)" by (simp add: q2_def set_sort_refs)
  from v id have am: "a \<notin> set (messages q2)" by (simp add: q2_def)
  have fr: "frame (store q2) (store (checkDelayedMessages q2 t3))" by (rule check_frame)
  from fr have "processingAttempts (store (checkDelayedMessages q2 t3) ! a) =
      processingAttempts (store q2 ! a)" by (simp only: frame_def)
  with e sa show "processingAttempts (store ?q' ! a) = processingAttempts (store q ! a) + 1"
    by simp
  from fr have "failureReason (store (checkDelayedMessages q2 t3) ! a) =
      failureReason (store q2 ! a)" by (simp only: frame_def)
  with e sa show "failureReason (store ?q' ! a) = reason" by simp
  from fr have "delayUntil (store (checkDelayedMessages q2 t3) ! a) =
      delayUntil (store q2 ! a)" by (simp only: frame_def)
  with e sa show "delayUntil (store ?q' ! a) = Some (t2 + retryDelay (options q))"
    by (simp add: du_def)
  from check_status[OF la, of t3] ad el sa(4)
  have "status (store (checkDelayedMessages q2 t3) ! a) =
      (if du \<noteq> 0 \<and> du \<le> t3 then PENDING else DELAYED)" by simp
  with e show "status (store ?q' ! a) =
      (if t2 + retryDelay (options q) \<noteq> 0 \<and> t2 + retryDelay (options q) \<le> t3
       then PENDING else DELAYED)" by (simp add: du_def)
  have "a \<in> set (delayedMessages (checkDelayedMessages q2 t3)) \<longleftrightarrow>
      \<not> elapsed t3 (store q2 ! a)"
    using ad by (simp add: check_delayed)
  with e el show "a \<in> set (delayedMessages ?q') \<longleftrightarrow>
      \<not> (t2 + retryDelay (options q) \<noteq> 0 \<and> t2 + retryDelay (options q) \<le> t3)"
    by (simp add: du_def)
  have "a \<in> set (messages (checkDelayedMessages q2 t3)) \<longleftrightarrow> elapsed t3 (store q2 ! a)"
    using ad am by (simp add: check_messages_set)
  with e el show "a \<in> set (messages ?q') \<longleftrightarrow>
      (t2 + retryDelay (options q) \<noteq> 0 \<and> t2 + retryDelay (options q) \<le> t3)"
    by (simp add: du_def)
qed

lemmas ex_fail_defs =
  ex_auto_ready_def ex_auto_failed_def ex_nodl_delayed_def ex_nodl_failed_def
  ex_completed_def ex_failed_once_def ex_one_try_def ex_dead_def fail_def complete_def

text \<open>
  Claim C1 as stated fails in two places. With \<open>autoCheckDelayed\<close> set, \<open>fail\<close> sweeps the
  delayed collection at once; with \<open>retryDelay = 0\<close> the failed message is already due, so
  it ends Pending in the ready collection and not Delayed in the delayed collection. And
  when the retries are exhausted and dead-lettering is disabled, no collection changes:
  a message that was in the delayed collection stays there with the status Failed.
\<close>

theorem fail_ends_elsewhere:
  "findMessageById ex_auto_ready ''a'' = Some 0 \<and>
   maxRetries (options ex_auto_ready) = 3 \<and>
   fst ex_auto_failed \<and>
   processingAttempts (store (snd ex_auto_failed) ! 0) = 1 \<and>
   status (store (snd ex_auto_failed) ! 0) = PENDING \<and>
   messages (snd ex_auto_failed) = [0] \<and>
   delayedMessages (snd ex_auto_failed) = [] \<and>
   findMessageById ex_nodl_delayed ''a'' = Some 0 \<and>
   maxRetries (options ex_nodl_delayed) = 1 \<and>
   \<not> deadLetterEnabled (options ex_nodl_delayed) \<and>
   fst ex_nodl_failed \<and>
   processingAttempts (store (snd ex_nodl_failed) ! 0) = 1 \<and>
   status (store (snd ex_nodl_failed) ! 0) = FAILED \<and>
   messages (snd ex_nodl_failed) = [] \<and>
   delayedMessages (snd ex_nodl_failed) = [0]"
  by (simp add: ex_fail_defs ex_defs)

text \<open>
  Claim C1, amended. \<open>fail\<close> returns false, changing nothing, for an id in no collection.
  For a message found, it returns true, adds exactly 1 to \<open>processingAttempts\<close> and sets
  \<open>failureReason\<close>. If the new count is below \<open>maxRetries\<close>, \<open>delayUntil\<close> becomes the
  clock plus \<open>retryDelay\<close> and the message ends with the status Delayed in the delayed
  collection and not in the ready one, unless \<open>autoCheckDelayed\<close> is set and that
  \<open>delayUntil\<close> is non-zero and not after the clock of the sweep that follows: then it
  ends Pending in the ready collection and not in the delayed one. If the count has
  reached \<open>maxRetries\<close> and dead-lettering is enabled, it ends with the status DeadLetter
  in the dead-letter collection, and in neither of the other two. If the count has
  reached \<open>maxRetries\<close> and dead-lettering is disabled, it gets the status Failed and no
  collection changes: it stays in the collection it was in.
\<close>

theorem fail_transition:
  "(findMessageById q mid = None \<longrightarrow> fail q mid reason t1 t2 t3 = (False, q)) \<and>
   (\<forall>a q'. findMessageById q mid = Some a \<and> a < length (store q) \<and>
          q' = snd (fail q mid reason t1 t2 t3) \<longrightarrow>
      fst (fail q mid reason t1 t2 t3) \<and>
      processingAttempts (store q' ! a) = processingAttempts (store q ! a) + 1 \<and>
      failureReason (store q' ! a) = reason \<and>
      (processingAttempts (store q ! a) + 1 < maxRetries (options q) \<longrightarrow>
         delayUntil (store q' ! a) = Some (t2 + retryDelay (options q)) \<and>
         (if autoCheckDelayed (options q) \<and> t2 + retryDelay (options q) \<noteq> 0 \<and>
             t2 + retryDelay (options q) \<le> t3
          then status (store q' ! a) = PENDING \<and> a \<in> set (messages q') \<and>
               a \<notin> set (delayedMessages q')
          else status (store q' ! a) = DELAYED \<and> a \<in> set (delayedMessages q') \<and>
               a \<notin> set (messages q'))) \<and>
      (maxRetries (options q) \<le> processingAttempts (store q ! a) + 1 \<and>
       deadLetterEnabled (options q) \<longrightarrow>
         status (store q' ! a) = DEAD_LETTER \<and> a \<in> set (deadLetterMessages q') \<and>
         a \<notin> set (messages q') \<and> a \<notin> set (delayedMessages q')) \<and>
      (maxRetries (options q) \<le> processingAttempts (store q ! a) + 1 \<and>
       \<not> deadLetterEnabled (options q) \<longrightarrow>
         status (store q' ! a) = FAILED \<and> messages q' = messages q \<and>
         delayedMessages q' = delayedMessages q \<and>
         deadLetterMessages q' = deadLetterMessages q))"
proof -
  have none: "findMessageById q mid = None \<longrightarrow> fail q mid reason t1 t2 t3 = (False, q)"
    by (simp add: fail_not_found)
  have found: "(\<forall>a q'. findMessageById q mid = Some a \<and> a < length (store q) \<and>
          q' = snd (fail q mid reason t1 t2 t3) \<longrightarrow>
      fst (fail q mid reason t1 t2 t3) \<and>
      processingAttempts (store q' ! a) = processingAttempts (store q ! a) + 1 \<and>
      failureReason (store q' ! a) = reason \<and>
      (processingAttempts (store q ! a) + 1 < maxRetries (options q) \<longrightarrow>
         delayUntil (store q' ! a) = Some (t2 + retryDelay (options q)) \<and>
         (if autoCheckDelayed (options q) \<and> t2 + retryDelay (options q) \<noteq> 0 \<and>
             t2 + retryDelay (options q) \<le> t3
          then status (store q' ! a) = PENDING \<and> a \<in> set (messages q') \<and>
               a \<notin> set (delayedMessages q')
          else status (store q' ! a) = DELAYED \<and> a \<in> set (delayedMessages q') \<and>
               a \<notin> set (messages q'))) \<and>
      (maxRetries (options q) \<le> processingAttempts (store q ! a) + 1 \<and>
       deadLetterEnabled (options q) \<longrightarrow>
         status (store q' ! a) = DEAD_LETTER \<and> a \<in> set (deadLetterMessages q') \<and>
         a \<notin> set (messages q') \<and> a \<notin> set (delayedMessages q')) \<and>
      (maxRetries (options q) \<le> processingAttempts (store q ! a) + 1 \<and>
       \<not> deadLetterEnabled (options q) \<longrightarrow>
         status (store q' ! a) = FAILED \<and> messages q' = messages q \<and>
         delayedMessages q' = delayedMessages q \<and>
         deadLetterMessages q' = deadLetterMessages q))"
  proof (intro allI impI)
    fix a q'
    assume h: "findMessageById q mid = Some a \<and> a < length (store q) \<and>
          q' = snd (fail q mid reason t1 t2 t3)"
    then have f: "findMessageById q mid = Some a" and v: "a < length (store q)"
      and q': "q' = snd (fail q mid reason t1 t2 t3)" by simp_all
    consider (retry) "processingAttempts (store q ! a) + 1 < maxRetries (options q)"
        "\<not> autoCheckDelayed (options q)"
      | (sweep) "processingAttempts (store q ! a) + 1 < maxRetries (options q)"
        "autoCheckDelayed (options q)"
      | (dead) "\<not> processingAttempts (store q ! a) + 1 < maxRetries (options q)"
        "deadLetterEnabled (options q)"
      | (parked) "\<not> processingAttempts (store q ! a) + 1 < maxRetries (options q)"
        "\<not> deadLetterEnabled (options q)"
      by blast
    then show "fst (fail q mid reason t1 t2 t3) \<and>
      processingAttempts (store q' ! a) = processingAttempts (store q ! a) + 1 \<and>
      failureReason (store q' ! a) = reason \<and>
      (processingAttempts (store q ! a) + 1 < maxRetries (options q) \<longrightarrow>
         delayUntil (store q' ! a) = Some (t2 + retryDelay (options q)) \<and>
         (if autoCheckDelayed (options q) \<and> t2 + retryDelay (options q) \<noteq> 0 \<and>
             t2 + retryDelay (options q) \<le> t3
          then status (store q' ! a) = PENDING \<and> a \<in> set (messages q') \<and>
               a \<notin> set (delayedMessages q')
          else status (store q' ! a) = DELAYED \<and> a \<in> set (delayedMessages q') \<and>
               a \<notin> set (messages q'))) \<and>
      (maxRetries (options q) \<le> processingAttempts (store q ! a) + 1 \<and>
       deadLetterEnabled (options q) \<longrightarrow>
         status (store q' ! a) = DEAD_LETTER \<and> a \<in> set (deadLetterMessages q') \<and>
         a \<notin> set (messages q') \<and> a \<notin> set (delayedMessages q')) \<and>
      (maxRetries (options q) \<le> processingAttempts (store q ! a) + 1 \<and>
       \<not> deadLetterEnabled (options q) \<longrightarrow>
         status (store q' ! a) = FAILED \<and> messages q' = messages q \<and>
         delayedMessages q' = delayedMessages q \<and>
         deadLetterMessages q' = deadLetterMessages q)"
    proof cases
      case retry
      from fail_retry_no_sweep[OF f v retry, of reason t1 t2 t3] fail_returns_true[OF f] retry
      show ?thesis unfolding q' by simp
    next
      case sweep
      from fail_retry_sweep[OF f v sweep, of reason t1 t2 t3] fail_returns_true[OF f] sweep
      show ?thesis unfolding q' by simp
    next
      case dead
      from fail_dead_letter[OF f v dead, of reason t1 t2 t3] fail_returns_true[OF f] dead
      show ?thesis unfolding q' by simp
    next
      case parked
      from fail_parked[OF f v parked, of reason t1 t2 t3] fail_returns_true[OF f] parked
      show ?thesis unfolding q' by simp
    qed
  qed
  from none found show ?thesis by (rule conjI)
qed

theorem fail_transition_witness:
  "findMessageById ex_ready ''a'' = Some 0 \<and> 0 < length (store ex_ready) \<and>
   processingAttempts (store ex_ready ! 0) + 1 < maxRetries (options ex_ready) \<and>
   \<not> autoCheckDelayed (options ex_ready) \<and>
   fst (fail ex_ready ''a'' (Some ''first'') 1 1 1) \<and>
   processingAttempts (store ex_failed_once ! 0) = 1 \<and>
   failureReason (store ex_failed_once ! 0) = Some ''first'' \<and>
   status (store ex_failed_once ! 0) = DELAYED \<and>
   delayUntil (store ex_failed_once ! 0) = Some 1001 \<and>
   delayedMessages ex_failed_once = [0] \<and> messages ex_failed_once = [] \<and>
   findMessageById ex_one_try ''a'' = Some 0 \<and> 0 < length (store ex_one_try) \<and>
   maxRetries (options ex_one_try) \<le> processingAttempts (store ex_one_try ! 0) + 1 \<and>
   deadLetterEnabled (options ex_one_try) \<and>
   status (store ex_dead ! 0) = DEAD_LETTER \<and> deadLetterMessages ex_dead = [0] \<and>
   messages ex_dead = [] \<and> delayedMessages ex_dead = [] \<and>
   findMessageById ex_new ''a'' = None \<and>
   fail ex_new ''a'' (Some ''first'') 1 1 1 = (False, ex_new)"
proof -
  have e: "findMessageById ex_ready ''a'' = Some 0" "0 < length (store ex_ready)"
    "processingAttempts (store ex_ready ! 0) + 1 < maxRetries (options ex_ready)"
    "\<not> autoCheckDelayed (options ex_ready)"
    "processingAttempts (store ex_failed_once ! 0) = 1"
    "failureReason (store ex_failed_once ! 0) = Some ''first''"
    "delayUntil (store ex_failed_once ! 0) = Some 1001"
    "delayedMessages ex_failed_once = [0]" "messages ex_failed_once = []"
    by (simp_all add: ex_fail_defs ex_defs)
  have d: "findMessageById ex_one_try ''a'' = Some 0" "0 < length (store ex_one_try)"
    "maxRetries (options ex_one_try) \<le> processingAttempts (store ex_one_try ! 0) + 1"
    "deadLetterEnabled (options ex_one_try)"
    "deadLetterMessages ex_dead = [0]" "messages ex_dead = []" "delayedMessages ex_dead = []"
    by (simp_all add: ex_fail_defs ex_defs)
  have n: "findMessageById ex_new ''a'' = None"
    by (simp add: ex_defs)
  from fail_transition[of ex_ready "''a''" "Some ''first''" 1 1 1] e(1-4)
  have c1: "fst (fail ex_ready ''a'' (Some ''first'') 1 1 1)"
    "status (store ex_failed_once ! 0) = DELAYED"
    unfolding ex_failed_once_def by simp_all
  from fail_transition[of ex_one_try "''a''" "Some ''boom''" 5 5 5] d(1-4)
  have c2: "status (store ex_dead ! 0) = DEAD_LETTER"
    unfolding ex_dead_def by simp
  from fail_transition[of ex_new "''a''" "Some ''first''" 1 1 1] n
  have c3: "fail ex_new ''a'' (Some ''first'') 1 1 1 = (False, ex_new)"
    by simp
  from e d n c1 c2 c3 show ?thesis by simp
qed

section \<open>fail and the status of the message\<close>




end
